(* ===== verification/Prelude.thy ===== *)
theory Prelude
  imports Complex_Main "HOL-Library.Word" "HOL-Library.Multiset"
begin

text \<open>
  Shared vocabulary of the TMR development.  The C sources work on \<open>double\<close> arrays,
  \<open>int\<close> node numbers and \<open>uint32_t\<close> point numbers; the model reads a \<open>double\<close> as
  a \<open>real\<close> (rounding is not modelled), keeps \<open>int\<close> node numbers as \<open>int\<close>
  (negative numbers are dependent nodes), and keeps \<open>uint32_t\<close> values at their
  width as \<open>32 word\<close>.  An output array that a C routine fills is the list of
  the values it writes.  The collections below gather the unfolding rules of each
  group of definitions; the generic lemmas on loops that accumulate a sum or a
  maximum are shared by the assembly loops of the components.
\<close>

named_theorems enrich_defs "unfolding rules of the enrichment basis"
named_theorems assembly_simps "rules that evaluate the element assembly loops"

type_synonym u32 = "32 word"
type_synonym pt2 = "real \<times> real"
type_synonym pt3 = "real \<times> real \<times> real"

text \<open>
  The C loops that walk an interleaved array with a pointer (\<open>X += 3\<close>,
  \<open>ue += vars_per_node\<close>) while walking a basis array entry by entry compute the sum
  of \<open>X[stride*i + offset]*N[i]\<close> over the first \<open>n\<close> entries.
\<close>

definition strided_dot :: "real list \<Rightarrow> nat \<Rightarrow> nat \<Rightarrow> real list \<Rightarrow> nat \<Rightarrow> real" where
  "strided_dot X stride offset N n = sum_list (map (\<lambda>i. X ! (stride * i + offset) * N ! i) [0..<n])"

text \<open>
  A loop whose body may fail (an uninitialised read, a write past an allocation)
  is a fold in the option monad: the first failing iteration makes the whole loop
  fail.
\<close>

fun foldM :: "('s \<Rightarrow> 'a \<Rightarrow> 's option) \<Rightarrow> 's \<Rightarrow> 'a list \<Rightarrow> 's option" where
  "foldM f s [] = Some s"
| "foldM f s (x # xs) = Option.bind (f s x) (\<lambda>s'. foldM f s' xs)"

subsection \<open>Index ranges of the fixed-size arrays\<close>

text \<open>
  The basis routines fill arrays of 5, 7, 9 or 15 entries; a fact about every entry is
  proved entry by entry after splitting the index.
\<close>

lemma less_9_cases: "(i::nat) < 9 \<Longrightarrow> i \<in> {0, 1, 2, 3, 4, 5, 6, 7, 8}"
  by (simp add: eval_nat_numeral less_Suc_eq)

lemma less_15_cases: "(i::nat) < 15 \<Longrightarrow> i \<in> {0, 1, 2, 3, 4, 5, 6, 7, 8, 9, 10, 11, 12, 13, 14}"
  by (simp add: eval_nat_numeral less_Suc_eq)

lemma less_20_cases:
  "(i::nat) < 20 \<Longrightarrow> i \<in> {0, 1, 2, 3, 4, 5, 6, 7, 8, 9, 10, 11, 12, 13, 14, 15, 16, 17, 18, 19}"
  by (simp add: eval_nat_numeral less_Suc_eq)

subsection \<open>Accumulating loops\<close>

text \<open>
  A C loop \<open>for (...) s += f(x);\<close> over the entries of a list is a left fold; its value
  is the start value plus the sum of the terms.
\<close>

lemma foldl_add_sum_list [assembly_simps]:
  "foldl (\<lambda>s x. s + f x) a xs = a + sum_list (map f xs)"
  for a :: "'a::ab_group_add"
  by (induction xs arbitrary: a) (simp_all add: algebra_simps)

text \<open>
  A C loop \<open>if (f(x) > m) m = f(x);\<close> is a left fold that keeps the running maximum.
\<close>

lemma foldl_max_eq [assembly_simps]:
  "foldl (\<lambda>m x. if m < f x then f x else m) a xs = Max (insert a (f ` set xs))"
  for a :: "'a::linorder"
proof (induction xs arbitrary: a)
  case Nil
  then show ?case by simp
next
  case (Cons x xs)
  have "Max (insert (if a < f x then f x else a) (f ` set xs)) = Max (insert a (f ` set (x # xs)))"
    by (cases "xs = []") (auto simp: max_def insert_commute)
  with Cons show ?case by simp
qed

lemma sum_list_map_nonneg:
  "(\<And>x. x \<in> set xs \<Longrightarrow> 0 \<le> f x) \<Longrightarrow> 0 \<le> sum_list (map f xs)"
  for f :: "'a \<Rightarrow> real"
  by (induction xs) auto

lemma sum_list_nonneg_mono:
  "(\<And>x. x \<in> set xs \<Longrightarrow> 0 \<le> f x) \<Longrightarrow> y \<in> set xs \<Longrightarrow> f y \<le> sum_list (map f xs)"
  for f :: "'a \<Rightarrow> real"
proof (induction xs)
  case (Cons a xs)
  then show ?case
    using sum_list_map_nonneg[of xs f] by (cases "y = a") (auto intro: add_increasing)
qed simp

lemma sum_list_pos:
  "(\<And>x. x \<in> set xs \<Longrightarrow> 0 < f x) \<Longrightarrow> xs \<noteq> [] \<Longrightarrow> 0 < sum_list (map f xs)"
  for f :: "'a \<Rightarrow> real"
proof (induction xs)
  case (Cons a xs)
  then show ?case
    using sum_list_map_nonneg[of xs f] by (cases "xs = []") (auto intro: add_pos_nonneg less_imp_le)
qed simp

lemma sum_list_map_mult_const:
  "sum_list (map (\<lambda>x. c * f x) xs) = c * sum_list (map f xs)"
  for c :: "'a::comm_semiring_0"
  by (induction xs) (simp_all add: algebra_simps)

subsection \<open>Loops over the knots of an element\<close>

text \<open>
  The element loops \<open>for (kk) for (jj) for (ii)\<close> (and \<open>for (jj) for (ii)\<close> in 2D)
  write one block per knot, so the knot \<open>(ii, jj, kk)\<close> writes the block of slot
  \<open>ii + jj*order + kk*order*order\<close>.  The lemmas below turn the nested loops into one
  loop over the slots and read an entry of the concatenated blocks.
\<close>

lemma concat_map_upt_blocks:
  assumes "\<And>k i. k < m \<Longrightarrow> i < n \<Longrightarrow> h k i = g (k * n + i)"
  shows "concat (map (\<lambda>k. map (h k) [0..<n]) [0..<m]) = map g [0..<m * n]"
  using assms
proof (induction m)
  case (Suc m)
  have "[m * n..<m * n + n] = map (\<lambda>i. i + m * n) [0..<n]"
    by (simp add: map_add_upt add.commute)
  then have "map (h m) [0..<n] = map g [m * n..<m * n + n]"
    using Suc.prems by (auto simp: add.commute)
  moreover have "[0..<Suc m * n] = [0..<m * n] @ [m * n..<m * n + n]"
    using upt_add_eq_append[of 0 "m * n" n] by (simp add: add.commute)
  ultimately show ?case using Suc by simp
qed simp

lemma grid2_as_slots:
  "concat (map (\<lambda>jj. map (\<lambda>ii. f ii jj) [0..<p]) [0..<p]) = map (\<lambda>s. f (s mod p) (s div p)) [0..<p * p]"
  by (rule concat_map_upt_blocks) simp

lemma grid3_as_slots:
  "concat (map (\<lambda>kk. concat (map (\<lambda>jj. map (\<lambda>ii. f ii jj kk) [0..<p]) [0..<p])) [0..<p]) =
   map (\<lambda>s. f (s mod p) (s div p mod p) (s div p div p)) [0..<p * p * p]"
proof -
  have "concat (map (\<lambda>kk. concat (map (\<lambda>jj. map (\<lambda>ii. f ii jj kk) [0..<p]) [0..<p])) [0..<p]) =
        concat (map (\<lambda>kk. map (\<lambda>t. f (t mod p) (t div p) kk) [0..<p * p]) [0..<p])"
    by (simp add: grid2_as_slots)
  also have "\<dots> = map (\<lambda>s. f (s mod p) (s div p mod p) (s div p div p)) [0..<p * (p * p)]"
  proof (rule concat_map_upt_blocks, goal_cases)
    case (1 kk i)
    then have p: "0 < p" and c: "i div p < p"
      by (auto simp: div_less_iff_less_mult intro: Nat.gr0I)
    have "(kk * (p * p) + i) mod p = i mod p" "(kk * (p * p) + i) div p = i div p + kk * p"
      using p by (simp_all add: mult.assoc[symmetric])
    then show ?case
      using p c by simp
  qed
  finally show ?thesis by (simp add: mult.assoc)
qed

lemma nth_concat_blocks:
  assumes "\<And>x. x \<in> set xs \<Longrightarrow> length (B x) = bs" "s < length xs" "c < bs"
  shows "concat (map B xs) ! (bs * s + c) = B (xs ! s) ! c"
  using assms
proof (induction xs arbitrary: s)
  case (Cons x xs)
  then show ?case
    by (cases s) (auto simp: nth_append algebra_simps)
qed simp

lemma slot_decompose3:
  "s mod p + s div p mod p * p + s div p div p * p * p = (s::nat)"
proof -
  have "s mod p + s div p mod p * p + s div p div p * p * p =
        s mod p + (s div p mod p + s div p div p * p) * p"
    by (simp only: add.assoc distrib_right mult.assoc)
  also have "\<dots> = s"
    by (simp only: mod_div_mult_eq)
  finally show ?thesis .
qed


subsection \<open>Blocks of three and strided sums\<close>

lemma length_concat_triples [simp]:
  "length (concat (map (\<lambda>k. [a k, b k, c k]) xs)) = 3 * length xs"
  by (induction xs) auto

lemma map_concat_triples:
  "map f (concat (map (\<lambda>k. [a k, b k, c k]) xs)) = concat (map (\<lambda>k. [f (a k), f (b k), f (c k)]) xs)"
  by (induction xs) auto

lemma nth_concat_triples:
  assumes "k < length xs"
  shows "concat (map (\<lambda>k. [A k, B k, C k]) xs) ! (3 * k) = A (xs ! k)"
    "concat (map (\<lambda>k. [A k, B k, C k]) xs) ! Suc (3 * k) = B (xs ! k)"
    "concat (map (\<lambda>k. [A k, B k, C k]) xs) ! Suc (Suc (3 * k)) = C (xs ! k)"
  using assms nth_concat_blocks[of xs "\<lambda>k. [A k, B k, C k]" 3 k 0]
    nth_concat_blocks[of xs "\<lambda>k. [A k, B k, C k]" 3 k 1]
    nth_concat_blocks[of xs "\<lambda>k. [A k, B k, C k]" 3 k 2]
  by simp_all

lemma length_concat_blocks:
  "(\<And>x. x \<in> set xs \<Longrightarrow> length (B x) = bs) \<Longrightarrow> length (concat (map B xs)) = length xs * bs"
  by (induction xs) auto

lemma sum_list_indicator_count:
  "(\<Sum>j\<leftarrow>[0..<length xs]. if xs ! j = a then (1::real) else 0) = real (count (mset xs) a)"
proof -
  have "map (\<lambda>j. if xs ! j = a then (1::real) else 0) [0..<length xs] =
        map (\<lambda>x. if x = a then 1 else 0) xs"
    by (rule nth_equalityI) auto
  moreover have "(\<Sum>x\<leftarrow>xs. if x = a then (1::real) else 0) = real (count (mset xs) a)"
    by (induction xs) auto
  ultimately show ?thesis by simp
qed

lemma sum_list_real_of_nat:
  "(\<Sum>x\<leftarrow>xs. real (f x)) = real (\<Sum>x\<leftarrow>xs. f x)"
  by (induction xs) auto

lemma sum_list_map_divide_const:
  "sum_list (map (\<lambda>x. f x / c) xs) = sum_list (map f xs) / (c :: real)"
  by (induction xs) (simp_all add: add_divide_distrib)

lemma strided_dot_comb3:
  "strided_dot X s off A n * a + strided_dot X s off B n * b + strided_dot X s off C n * c =
   (\<Sum>i\<leftarrow>[0..<n]. X ! (s * i + off) * (A ! i * a + B ! i * b + C ! i * c))"
  by (induction n) (simp_all add: strided_dot_def algebra_simps)

lemma comb3_split:
  "(a1 + b1) * x + (a2 + b2) * y + (a3 + b3) * z = (a1 * x + a2 * y + a3 * z) + (b1 * x + b2 * y + b3 * (z :: real))"
  by (simp add: algebra_simps)

lemma strided_dot_affine:
  assumes "\<forall>i < n. u ! (vpn * i + k) = a + g0 * X ! (3 * i) + g1 * X ! (3 * i + 1) + g2 * X ! (3 * i + 2)"
    "sum_list (map (\<lambda>i. N ! i) [0..<n]) = 0"
  shows "strided_dot u vpn k N n =
         g0 * strided_dot X 3 0 N n + g1 * strided_dot X 3 1 N n + g2 * strided_dot X 3 2 N n"
proof -
  have "strided_dot u vpn k N n =
        (\<Sum>i\<leftarrow>[0..<n]. a * N ! i + (g0 * (X ! (3 * i) * N ! i) + (g1 * (X ! (3 * i + 1) * N ! i)
                           + g2 * (X ! (3 * i + 2) * N ! i))))"
    unfolding strided_dot_def using assms(1)
    by (intro arg_cong[where f = sum_list] map_cong) (auto simp: algebra_simps)
  then show ?thesis
    using assms(2) by (simp add: strided_dot_def sum_list_addf sum_list_map_mult_const)
qed


subsection \<open>Options of lists, slots and blocks\<close>

lemma those_map_Some:
  assumes "those (map f xs) = Some ys"
  shows "length ys = length xs \<and> (\<forall>s < length xs. f (xs ! s) = Some (ys ! s))"
  using assms
proof (induction xs arbitrary: ys)
  case (Cons x xs)
  then obtain y ys' where "f x = Some y" "those (map f xs) = Some ys'" "ys = y # ys'"
    by (auto split: option.splits)
  with Cons.IH show ?case by (auto simp: nth_Cons split: nat.splits)
qed simp

lemma those_map_Some_iff:
  "those (map f xs) \<noteq> None \<longleftrightarrow> (\<forall>x \<in> set xs. f x \<noteq> None)"
  by (induction xs) (auto split: option.splits)

lemma less_3_cases: "(c::nat) < 3 \<Longrightarrow> c = 0 \<or> c = 1 \<or> c = 2"
  by auto

lemma slot3_decode:
  fixes p :: nat
  assumes "ii < p" "jj < p" "kk < p"
  shows "(ii + p * jj + p * p * kk) mod p = ii" "(ii + p * jj + p * p * kk) div p mod p = jj"
    "(ii + p * jj + p * p * kk) div p div p = kk" "ii + p * jj + p * p * kk < p * p * p"
proof -
  have p: "0 < p" using assms by simp
  have e: "ii + p * jj + p * p * kk = ii + p * (jj + p * kk)" by (simp add: algebra_simps)
  have d: "(ii + p * jj + p * p * kk) div p = jj + p * kk"
    unfolding e using assms p by simp
  show "(ii + p * jj + p * p * kk) mod p = ii" unfolding e using assms by simp
  show "(ii + p * jj + p * p * kk) div p mod p = jj" using assms d by simp
  show "(ii + p * jj + p * p * kk) div p div p = kk" using assms d by simp
  have "ii + p * jj + p * p * kk \<le> (p - 1) + p * (p - 1) + p * p * (p - 1)"
    using assms by (intro add_mono mult_left_mono) auto
  also have "\<dots> < p * p * p" using p by (cases p) (auto simp: algebra_simps)
  finally show "ii + p * jj + p * p * kk < p * p * p" .
qed

lemma block_index_less:
  fixes s n c bs :: nat
  assumes "s < n" "c < bs"
  shows "bs * s + c < bs * n"
proof -
  have "bs * s + c < bs * Suc s" using assms(2) by simp
  also have "\<dots> \<le> bs * n" using assms(1) by (intro mult_le_mono2) simp
  finally show ?thesis .
qed

lemma strided_dot_cong:
  "(\<And>i. i < n \<Longrightarrow> u ! (s * i + off) = v ! (t * i + off')) \<Longrightarrow>
   strided_dot u s off N n = strided_dot v t off' N n"
  unfolding strided_dot_def by (intro arg_cong[where f = sum_list] map_cong) simp_all

lemma strided_dot_const:
  "(\<And>i. i < n \<Longrightarrow> u ! (s * i + off) = a) \<Longrightarrow>
   strided_dot u s off N n = a * sum_list (map (\<lambda>i. N ! i) [0..<n])"
proof -
  assume "\<And>i. i < n \<Longrightarrow> u ! (s * i + off) = a"
  then have "strided_dot u s off N n = (\<Sum>i\<leftarrow>[0..<n]. a * N ! i)"
    unfolding strided_dot_def by (intro arg_cong[where f = sum_list] map_cong) simp_all
  then show ?thesis by (simp add: sum_list_const_mult)
qed

lemma slot_recompose3:
  "s mod p + p * (s div p mod p) + p * p * (s div p div p) = (s::nat)"
  using slot_decompose3[of s p] by (simp add: algebra_simps)

lemma sum_list_upt_zero:
  "(\<And>i. i < n \<Longrightarrow> g i = 0) \<Longrightarrow> (\<Sum>i\<leftarrow>[0..<n]. g i) = (0::real)"
  by (induction n) simp_all

subsection \<open>Loops that may fail\<close>

lemma foldM_append:
  "foldM f s (xs @ ys) = Option.bind (foldM f s xs) (\<lambda>s'. foldM f s' ys)"
  by (induction xs arbitrary: s) (auto split: Option.bind_splits)

lemma foldM_Some_foldl:
  "(\<And>s x. x \<in> set xs \<Longrightarrow> f s x = Some (g s x)) \<Longrightarrow> foldM f s xs = Some (foldl g s xs)"
  by (induction xs arbitrary: s) auto

lemma foldM_cong:
  "(\<And>s x. x \<in> set xs \<Longrightarrow> f s x = g s x) \<Longrightarrow> foldM f s xs = foldM g s xs"
  by (induction xs arbitrary: s) auto

lemma foldM_None:
  "x \<in> set xs \<Longrightarrow> (\<And>s. f s x = None) \<Longrightarrow> foldM f s xs = None"
  by (induction xs arbitrary: s) (auto split: Option.bind_splits)

end
