(* ===== verification/Enrichment.thy ===== *)
theory Enrichment
  imports Prelude
begin

text \<open>
  The enrichment basis (component C1 of the spec), \<open>src/src/TMRGeometry.c\<close> lines
  744--1128: \<open>getNum2dEnrich\<close>, \<open>getNum3dEnrich\<close>, the two overloads of
  \<open>evalEnrichmentFuncs2D\<close> (values only; values and the two parametric
  derivatives) and the two overloads each of \<open>eval2ndEnrichmentFuncs3D\<close> and
  \<open>eval3rdEnrichmentFuncs3D\<close>.  A parametric point is a pair or triple of reals;
  the output arrays \<open>N\<close>, \<open>Na\<close>, \<open>Nb\<close>, \<open>Nc\<close> are the lists of values the routine
  writes, in the order the code writes them; a routine that writes nothing returns
  the empty list.  The knot array is a list read with \<open>!\<close> at indices 1 and 2,
  which the callers pass with at least five entries (the refined knots).
\<close>

definition getNum2dEnrich :: "int \<Rightarrow> nat" where
  "getNum2dEnrich order = (if order = 2 then 5 else if order = 3 then 7 else 9)"

definition getNum3dEnrich :: "int \<Rightarrow> nat" where
  "getNum3dEnrich order = (if order = 2 then 9 else 15)"

definition evalEnrichmentFuncs2D :: "int \<Rightarrow> pt2 \<Rightarrow> real list \<Rightarrow> real list" where
  "evalEnrichmentFuncs2D order pt knots = (case pt of (x, y) \<Rightarrow>
     if order = 2 then
       (let ca = (1 + x) * (1 - x); cb = (1 + y) * (1 - y)
        in [ca, y * ca, cb, x * cb, ca * cb])
     else if order = 3 then
       (let ca = (1 + x) * x * (1 - x); cb = (1 + y) * y * (1 - y)
        in [ca, y * ca, y * y * ca, cb, x * cb, x * x * cb, ca * cb])
     else if order = 4 then
       (let ca = (1 + x) * (1 - x) * ((x - knots ! 1) * (x - knots ! 2));
            cb = (1 + y) * (1 - y) * ((y - knots ! 1) * (y - knots ! 2))
        in [ca, y * ca, y * y * ca, y * y * y * ca, cb, x * cb, x * x * cb, x * x * x * cb, ca * cb])
     else [])"

text \<open>
  The derivative overload: its last branch is a plain \<open>else\<close>, so every order other
  than 2 and 3 gets the order-4 formulas.
\<close>

definition evalEnrichmentFuncs2D_d ::
  "int \<Rightarrow> pt2 \<Rightarrow> real list \<Rightarrow> real list \<times> real list \<times> real list" where
  "evalEnrichmentFuncs2D_d order pt knots = (case pt of (x, y) \<Rightarrow>
     if order = 2 then
       (let ca = (1 + x) * (1 - x); cb = (1 + y) * (1 - y);
            da = -2 * x; db = -2 * y
        in ([ca, y * ca, cb, x * cb, ca * cb],
            [da, y * da, 0, cb, da * cb],
            [0, ca, db, x * db, ca * db]))
     else if order = 3 then
       (let ca = (1 + x) * x * (1 - x); cb = (1 + y) * y * (1 - y);
            da = 1 - 3 * x * x; db = 1 - 3 * y * y
        in ([ca, y * ca, y * y * ca, cb, x * cb, x * x * cb, ca * cb],
            [da, y * da, y * y * da, 0, cb, 2 * x * cb, da * cb],
            [0, ca, 2 * y * ca, db, x * db, x * x * db, ca * db]))
     else
       (let ca = (1 + x) * (1 - x) * ((x - knots ! 1) * (x - knots ! 2));
            da = -2 * x * (x - knots ! 1) * (x - knots ! 2) +
                 (1 + x) * (1 - x) * (2 * x - knots ! 1 - knots ! 2);
            cb = (1 + y) * (1 - y) * ((y - knots ! 1) * (y - knots ! 2));
            db = -2 * y * (y - knots ! 1) * (y - knots ! 2) +
                 (1 + y) * (1 - y) * (2 * y - knots ! 1 - knots ! 2)
        in ([ca, y * ca, y * y * ca, y * y * y * ca, cb, x * cb, x * x * cb, x * x * x * cb, ca * cb],
            [da, y * da, y * y * da, y * y * y * da, 0, cb, 2 * x * cb, 3 * x * x * cb, da * cb],
            [0, ca, 2 * y * ca, 3 * y * y * ca, db, x * db, x * x * db, x * x * x * db, ca * db])))"

definition eval2ndEnrichmentFuncs3D :: "pt3 \<Rightarrow> real list" where
  "eval2ndEnrichmentFuncs3D pt = (case pt of (x, y, z) \<Rightarrow>
     let ca = (1 + x) * (1 - x); cb = (1 + y) * (1 - y); cc = (1 + z) * (1 - z)
     in [ca, y * ca, z * ca, cb, x * cb, z * cb, cc, x * cc, y * cc])"

definition eval2ndEnrichmentFuncs3D_d ::
  "pt3 \<Rightarrow> real list \<times> real list \<times> real list \<times> real list" where
  "eval2ndEnrichmentFuncs3D_d pt = (case pt of (x, y, z) \<Rightarrow>
     let ca = (1 + x) * (1 - x); cb = (1 + y) * (1 - y); cc = (1 + z) * (1 - z);
         da = -2 * x; db = -2 * y; dc = -2 * z
     in ([ca, y * ca, z * ca, cb, x * cb, z * cb, cc, x * cc, y * cc],
         [da, y * da, z * da, 0, cb, 0, 0, cc, 0],
         [0, ca, 0, db, x * db, z * db, 0, 0, cc],
         [0, 0, ca, 0, 0, cb, dc, x * dc, y * dc]))"

definition eval3rdEnrichmentFuncs3D :: "pt3 \<Rightarrow> real list" where
  "eval3rdEnrichmentFuncs3D pt = (case pt of (x, y, z) \<Rightarrow>
     let ca = (1 + x) * x * (1 - x); cb = (1 + y) * y * (1 - y); cc = (1 + z) * z * (1 - z)
     in [ca, y * ca, y * y * ca, z * ca, z * z * ca,
         cb, x * cb, x * x * cb, z * cb, z * z * cb,
         cc, x * cc, x * x * cc, y * cc, y * y * cc])"

definition eval3rdEnrichmentFuncs3D_d ::
  "pt3 \<Rightarrow> real list \<times> real list \<times> real list \<times> real list" where
  "eval3rdEnrichmentFuncs3D_d pt = (case pt of (x, y, z) \<Rightarrow>
     let ca = (1 + x) * x * (1 - x); cb = (1 + y) * y * (1 - y); cc = (1 + z) * z * (1 - z);
         da = 1 - 3 * x * x; db = 1 - 3 * y * y; dc = 1 - 3 * z * z
     in ([ca, y * ca, y * y * ca, z * ca, z * z * ca,
          cb, x * cb, x * x * cb, z * cb, z * z * cb,
          cc, x * cc, x * x * cc, y * cc, y * y * cc],
         [da, y * da, y * y * da, z * da, z * z * da,
          0, cb, 2 * x * cb, 0, 0,
          0, cc, 2 * x * cc, 0, 0],
         [0, ca, 2 * y * ca, 0, 0,
          db, x * db, x * x * db, z * db, z * z * db,
          0, 0, 0, cc, 2 * y * cc],
         [0, 0, 0, ca, 2 * z * ca,
          0, 0, 0, cb, 2 * z * cb,
          dc, x * dc, x * x * dc, y * dc, y * y * dc]))"

declare getNum2dEnrich_def [enrich_defs] getNum3dEnrich_def [enrich_defs]
  evalEnrichmentFuncs2D_def [enrich_defs] evalEnrichmentFuncs2D_d_def [enrich_defs]
  eval2ndEnrichmentFuncs3D_def [enrich_defs] eval2ndEnrichmentFuncs3D_d_def [enrich_defs]
  eval3rdEnrichmentFuncs3D_def [enrich_defs] eval3rdEnrichmentFuncs3D_d_def [enrich_defs]

text \<open>
  The 3D callers choose the routine by the order: \<open>eval2ndEnrichmentFuncs3D\<close> for order 2,
  \<open>eval3rdEnrichmentFuncs3D\<close> for order 3, and no call at all otherwise, which leaves
  the output arrays unwritten (\<open>None\<close>).
\<close>

definition enrichVals3D :: "nat \<Rightarrow> pt3 \<Rightarrow> real list option" where
  "enrichVals3D order pt =
     (if order = 2 then Some (eval2ndEnrichmentFuncs3D pt)
      else if order = 3 then Some (eval3rdEnrichmentFuncs3D pt) else None)"

definition enrichDeriv3D :: "nat \<Rightarrow> pt3 \<Rightarrow> (real list \<times> real list \<times> real list \<times> real list) option" where
  "enrichDeriv3D order pt =
     (if order = 2 then Some (eval2ndEnrichmentFuncs3D_d pt)
      else if order = 3 then Some (eval3rdEnrichmentFuncs3D_d pt) else None)"

subsection \<open>Sizes\<close>

lemma length_evalEnrichmentFuncs2D_d:
  "length (fst (evalEnrichmentFuncs2D_d order pt knots)) = getNum2dEnrich order"
  "length (fst (snd (evalEnrichmentFuncs2D_d order pt knots))) = getNum2dEnrich order"
  "length (snd (snd (evalEnrichmentFuncs2D_d order pt knots))) = getNum2dEnrich order"
  by (simp_all add: enrich_defs Let_def split: prod.split)

lemma length_eval2ndEnrichmentFuncs3D_d:
  "length (fst (eval2ndEnrichmentFuncs3D_d pt)) = getNum3dEnrich 2"
  by (simp add: enrich_defs Let_def split: prod.split)

lemma length_eval3rdEnrichmentFuncs3D_d:
  "length (fst (eval3rdEnrichmentFuncs3D_d pt)) = getNum3dEnrich 3"
  by (simp add: enrich_defs Let_def split: prod.split)

subsection \<open>The derivative overloads return the analytic derivatives\<close>

text \<open>C34. Every derivative that the 2D derivative overload returns is the exact partial derivative of the value it returns at the same index: \<open>Na\<close> along the first parametric direction and \<open>Nb\<close> along the second, for every order and knot array.\<close>

theorem enrich2D_partial_derivatives:
  assumes "i < getNum2dEnrich order"
  shows "((\<lambda>s. fst (evalEnrichmentFuncs2D_d order (s, b) knots) ! i) has_real_derivative
            fst (snd (evalEnrichmentFuncs2D_d order (a, b) knots)) ! i) (at a) \<and>
         ((\<lambda>s. fst (evalEnrichmentFuncs2D_d order (a, s) knots) ! i) has_real_derivative
            snd (snd (evalEnrichmentFuncs2D_d order (a, b) knots)) ! i) (at b)"
proof -
  have "i < 9" using assms by (simp add: getNum2dEnrich_def split: if_splits)
  note i = less_9_cases[OF this]
  consider "order = 2" | "order = 3" | "order \<noteq> 2 \<and> order \<noteq> 3" by blast
  then show ?thesis
  proof cases
    case 1
    with assms i show ?thesis
      by (auto simp: enrich_defs Let_def intro!: derivative_eq_intros)
  next
    case 2
    with assms i show ?thesis
      by (auto simp: enrich_defs Let_def algebra_simps intro!: derivative_eq_intros)
  next
    case 3
    with i show ?thesis
      by (auto simp: enrich_defs Let_def algebra_simps intro!: derivative_eq_intros)
  qed
qed

text \<open>C35. The same for the second-order 3D basis: \<open>Na\<close>, \<open>Nb\<close> and \<open>Nc\<close> of \<open>eval2ndEnrichmentFuncs3D\<close> are the exact partial derivatives of its nine values along the three parametric directions.\<close>

theorem enrich3D_2nd_partial_derivatives:
  assumes "i < getNum3dEnrich 2"
  shows "((\<lambda>s. fst (eval2ndEnrichmentFuncs3D_d (s, b, c)) ! i) has_real_derivative
            fst (snd (eval2ndEnrichmentFuncs3D_d (a, b, c))) ! i) (at a) \<and>
         ((\<lambda>s. fst (eval2ndEnrichmentFuncs3D_d (a, s, c)) ! i) has_real_derivative
            fst (snd (snd (eval2ndEnrichmentFuncs3D_d (a, b, c)))) ! i) (at b) \<and>
         ((\<lambda>s. fst (eval2ndEnrichmentFuncs3D_d (a, b, s)) ! i) has_real_derivative
            snd (snd (snd (eval2ndEnrichmentFuncs3D_d (a, b, c)))) ! i) (at c)"
proof -
  have "i < 9" using assms by (simp add: getNum3dEnrich_def)
  from less_9_cases[OF this] show ?thesis
    by (auto simp: enrich_defs Let_def intro!: derivative_eq_intros)
qed

text \<open>C36. The same for the third-order 3D basis: the fifteen derivatives along each parametric direction that \<open>eval3rdEnrichmentFuncs3D\<close> returns are the exact partial derivatives of its fifteen values.\<close>

theorem enrich3D_3rd_partial_derivatives:
  assumes "i < getNum3dEnrich 3"
  shows "((\<lambda>s. fst (eval3rdEnrichmentFuncs3D_d (s, b, c)) ! i) has_real_derivative
            fst (snd (eval3rdEnrichmentFuncs3D_d (a, b, c))) ! i) (at a) \<and>
         ((\<lambda>s. fst (eval3rdEnrichmentFuncs3D_d (a, s, c)) ! i) has_real_derivative
            fst (snd (snd (eval3rdEnrichmentFuncs3D_d (a, b, c)))) ! i) (at b) \<and>
         ((\<lambda>s. fst (eval3rdEnrichmentFuncs3D_d (a, b, s)) ! i) has_real_derivative
            snd (snd (snd (eval3rdEnrichmentFuncs3D_d (a, b, c)))) ! i) (at c)"
proof -
  have "i < 15" using assms by (simp add: getNum3dEnrich_def)
  from less_15_cases[OF this] show ?thesis
    by (auto simp: enrich_defs Let_def algebra_simps intro!: derivative_eq_intros)
qed

subsection \<open>The overloads agree with each other\<close>

text \<open>C37. The value-only overloads compute exactly the values that the derivative overloads return first: for the orders 2, 3 and 4 in 2D, and always in 3D.\<close>

theorem enrich_overloads_agree:
  assumes "order \<in> {2, 3, 4}"
  shows "evalEnrichmentFuncs2D order pt knots = fst (evalEnrichmentFuncs2D_d order pt knots) \<and>
         eval2ndEnrichmentFuncs3D q = fst (eval2ndEnrichmentFuncs3D_d q) \<and>
         eval3rdEnrichmentFuncs3D q = fst (eval3rdEnrichmentFuncs3D_d q)"
  using assms by (auto simp: enrich_defs Let_def split: prod.split)

text \<open>C38. Outside the orders 2, 3 and 4 the value-only 2D overload writes no coefficient at all, while the derivative overload writes the nine order-4 coefficients and \<open>getNum2dEnrich\<close> announces nine: a consumer that reads \<open>getNum2dEnrich order\<close> entries of the value array reads entries that were never written.\<close>

theorem enrich2D_other_orders:
  assumes "order \<notin> {2, 3, 4}"
  shows "evalEnrichmentFuncs2D order pt knots = [] \<and>
         getNum2dEnrich order = 9 \<and>
         length (fst (evalEnrichmentFuncs2D_d order pt knots)) = getNum2dEnrich order"
  using assms by (auto simp: enrich_defs Let_def split: prod.split)

subsection \<open>The enrichment vanishes at the nodes of the element\<close>


text \<open>The order-4 bubble is built from entries 1 and 2 of the knot array it is given, and every caller passes the refined knots (the order-5 knots of the elevated mesh). With the uniform order-5 knots the bubble along the first direction vanishes at \<open>-1/2\<close> but not at \<open>1/2\<close>: the basis is not symmetric, and it does not vanish at the interior knots of the order-4 element it enriches.\<close>

theorem enrich2D_order4_refined_knots_asymmetric:
  "evalEnrichmentFuncs2D 4 (-1/2, 0) [-1, -1/2, 0, 1/2, 1] ! 0 = 0 \<and>
   evalEnrichmentFuncs2D 4 (1/2, 0) [-1, -1/2, 0, 1/2, 1] ! 0 = 3/8 \<and>
   evalEnrichmentFuncs2D 4 (1/3, 1/3) [-1, -1/2, 0, 1/2, 1] ! 0 \<noteq> 0"
  by (simp add: enrich_defs Let_def)

subsection \<open>Witnesses\<close>

theorem enrich2D_partial_derivatives_witness:
  "0 < getNum2dEnrich 3 \<and>
   ((\<lambda>s. fst (evalEnrichmentFuncs2D_d 3 (s, 1/3) []) ! 0) has_real_derivative
      fst (snd (evalEnrichmentFuncs2D_d 3 (1/2, 1/3) [])) ! 0) (at (1/2)) \<and>
   ((\<lambda>s. fst (evalEnrichmentFuncs2D_d 3 (1/2, s) []) ! 0) has_real_derivative
      snd (snd (evalEnrichmentFuncs2D_d 3 (1/2, 1/3) [])) ! 0) (at (1/3))"
  using enrich2D_partial_derivatives[where i = 0 and order = 3 and a = "1/2" and b = "1/3" and knots = "[]"]
  by (simp add: getNum2dEnrich_def)

theorem enrich3D_2nd_partial_derivatives_witness:
  "4 < getNum3dEnrich 2 \<and>
   ((\<lambda>s. fst (eval2ndEnrichmentFuncs3D_d (s, 1/3, 1/4)) ! 4) has_real_derivative
      fst (snd (eval2ndEnrichmentFuncs3D_d (1/2, 1/3, 1/4))) ! 4) (at (1/2)) \<and>
   ((\<lambda>s. fst (eval2ndEnrichmentFuncs3D_d (1/2, s, 1/4)) ! 4) has_real_derivative
      fst (snd (snd (eval2ndEnrichmentFuncs3D_d (1/2, 1/3, 1/4)))) ! 4) (at (1/3)) \<and>
   ((\<lambda>s. fst (eval2ndEnrichmentFuncs3D_d (1/2, 1/3, s)) ! 4) has_real_derivative
      snd (snd (snd (eval2ndEnrichmentFuncs3D_d (1/2, 1/3, 1/4)))) ! 4) (at (1/4))"
  using enrich3D_2nd_partial_derivatives[where i = 4 and a = "1/2" and b = "1/3" and c = "1/4"]
  by (simp add: getNum3dEnrich_def)

theorem enrich3D_3rd_partial_derivatives_witness:
  "12 < getNum3dEnrich 3 \<and>
   ((\<lambda>s. fst (eval3rdEnrichmentFuncs3D_d (s, 1/3, 1/4)) ! 12) has_real_derivative
      fst (snd (eval3rdEnrichmentFuncs3D_d (1/2, 1/3, 1/4))) ! 12) (at (1/2)) \<and>
   ((\<lambda>s. fst (eval3rdEnrichmentFuncs3D_d (1/2, s, 1/4)) ! 12) has_real_derivative
      fst (snd (snd (eval3rdEnrichmentFuncs3D_d (1/2, 1/3, 1/4)))) ! 12) (at (1/3)) \<and>
   ((\<lambda>s. fst (eval3rdEnrichmentFuncs3D_d (1/2, 1/3, s)) ! 12) has_real_derivative
      snd (snd (snd (eval3rdEnrichmentFuncs3D_d (1/2, 1/3, 1/4)))) ! 12) (at (1/4))"
  using enrich3D_3rd_partial_derivatives[where i = 12 and a = "1/2" and b = "1/3" and c = "1/4"]
  by (simp add: getNum3dEnrich_def)

theorem enrich_overloads_agree_witness:
  "(4::int) \<in> {2, 3, 4} \<and>
   evalEnrichmentFuncs2D 4 (1/2, 1/3) [-1, -1/2, 0, 1/2, 1] =
     fst (evalEnrichmentFuncs2D_d 4 (1/2, 1/3) [-1, -1/2, 0, 1/2, 1]) \<and>
   eval2ndEnrichmentFuncs3D (1/2, 1/3, 1/4) = fst (eval2ndEnrichmentFuncs3D_d (1/2, 1/3, 1/4)) \<and>
   eval3rdEnrichmentFuncs3D (1/2, 1/3, 1/4) = fst (eval3rdEnrichmentFuncs3D_d (1/2, 1/3, 1/4))"
  using enrich_overloads_agree[where order = 4 and pt = "(1/2, 1/3)" and knots = "[-1, -1/2, 0, 1/2, 1]"
      and q = "(1/2, 1/3, 1/4)"]
  by simp

theorem enrich2D_other_orders_witness:
  "(5::int) \<notin> {2, 3, 4} \<and> evalEnrichmentFuncs2D 5 (1/2, 1/3) [] = [] \<and> getNum2dEnrich 5 = 9 \<and>
   length (fst (evalEnrichmentFuncs2D_d 5 (1/2, 1/3) [])) = getNum2dEnrich 5"
  using enrich2D_other_orders[where order = 5 and pt = "(1/2, 1/3)" and knots = "[]"]
  by simp


end
