(* ===== verification/NodeDeriv.thy ===== *)
theory NodeDeriv
  imports Prelude
begin

text \<open>
  The nodal-derivative projector (component C3 of the spec) and the distributed
  vector it writes into.

  \<^item> The distributed vector \<open>TACSBVec\<close> belongs to TACS, not to this repository; it is
    modelled from the spec (section 3, "Distributed nodal vector" and "Dependent
    nodes") on one global address space: \<open>bvec\<close> maps an independent node and a
    component to a value, \<open>deptab\<close> gives each dependent node (index \<open>-k-1\<close>) its
    independent contributors and weights.  \<open>setValues\<close> with \<open>TACS_ADD_VALUES\<close>
    adds a value at an independent node and routes a value at a dependent node
    through the table; \<open>getValues\<close> reads an independent value or the resolved
    value of a dependent node.  With one address space the collectives
    \<open>beginSetValues\<close>/\<open>endSetValues\<close> and \<open>beginDistributeValues\<close>/\<open>endDistributeValues\<close>
    change nothing and are not written.
  \<^item> \<open>computeLocalWeights\<close> (\<open>TMRGeometry.c\<close> lines 1460--1525) adds a unit weight at
    every non-dependent slot of every element.
  \<^item> \<open>computeJacobianTrans3D\<close>/\<open>2D\<close> (lines 667--738) and the per-element body of
    \<open>computeNodeDeriv3D\<close>/\<open>2D\<close> (lines 1539--1813): at every knot of the element the
    physical gradient \<open>J Ud\<close>, scaled by the inverse weight of the node, or zero at a
    dependent slot; the element blocks are added into the derivative vector.
    \<open>FElibrary::jacobian3d\<close> (TACS) is modelled from the spec (section 4.2):
    the inverse of \<open>Xd\<close> by cofactors and its determinant.
\<close>

subsection \<open>The distributed vector\<close>

type_synonym bvec = "nat \<Rightarrow> nat \<Rightarrow> real"
type_synonym deptab = "nat \<Rightarrow> (nat \<times> real) list"

definition zeroEntries :: bvec where
  "zeroEntries = (\<lambda>n c. 0)"

definition dep_index :: "int \<Rightarrow> nat" where
  "dep_index n = nat (- n - 1)"

definition addValue :: "deptab \<Rightarrow> int \<Rightarrow> nat \<Rightarrow> real \<Rightarrow> bvec \<Rightarrow> bvec" where
  "addValue dep n c a v =
     (if 0 \<le> n then v(nat n := (v (nat n))(c := v (nat n) c + a))
      else foldl (\<lambda>v (m, w). v(m := (v m)(c := v m c + w * a))) v (dep (dep_index n)))"

fun setValues_add :: "deptab \<Rightarrow> nat \<Rightarrow> int list \<Rightarrow> real list \<Rightarrow> bvec \<Rightarrow> bvec" where
  "setValues_add dep bs [] vals v = v"
| "setValues_add dep bs (n # ns) vals v =
     setValues_add dep bs ns (drop bs vals) (foldl (\<lambda>v c. addValue dep n c (vals ! c) v) v [0..<bs])"

definition getValue :: "deptab \<Rightarrow> int \<Rightarrow> nat \<Rightarrow> bvec \<Rightarrow> real" where
  "getValue dep n c v =
     (if 0 \<le> n then v (nat n) c else sum_list (map (\<lambda>(m, w). w * v m c) (dep (dep_index n))))"

definition getValues :: "deptab \<Rightarrow> nat \<Rightarrow> int list \<Rightarrow> bvec \<Rightarrow> real list" where
  "getValues dep bs nodes v = concat (map (\<lambda>n. map (\<lambda>c. getValue dep n c v) [0..<bs]) nodes)"

subsection \<open>Local weights\<close>

text \<open>
  The elements a loop visits: all \<open>nelems\<close> elements when no list is given
  (\<open>element_nums = NULL\<close>, \<open>num_elements = -1\<close>), otherwise the given list.
\<close>

definition elementList :: "nat \<Rightarrow> nat list option \<Rightarrow> nat list" where
  "elementList nelems element_nums = (case element_nums of None \<Rightarrow> [0..<nelems] | Some es \<Rightarrow> es)"

definition computeLocalWeights ::
  "deptab \<Rightarrow> (nat \<Rightarrow> int list) \<Rightarrow> nat \<Rightarrow> nat list option \<Rightarrow> bvec" where
  "computeLocalWeights dep conn nelems element_nums =
     foldl (\<lambda>w e. setValues_add dep 1 (conn e) (map (\<lambda>n. if n < 0 then 0 else 1) (conn e)) w)
       zeroEntries (elementList nelems element_nums)"

subsection \<open>Jacobian of the element map\<close>

text \<open>
  \<open>Xd\<close> is stored row by row: row \<open>a\<close> holds the derivative of the position along the
  parametric direction \<open>a\<close>.  \<open>FElibrary::jacobian3d\<close> returns the determinant of
  \<open>Xd\<close> and writes its inverse by cofactors into \<open>J\<close>; \<open>Tensor::crossProduct3D\<close> and
  \<open>Tensor::normalize3D\<close> are the cross product and the scaling to unit length
  (a zero vector is left as it is).
\<close>

definition jacobian3d :: "real list \<Rightarrow> real list \<times> real" where
  "jacobian3d Xd =
     (let h = Xd ! 8 * (Xd ! 0 * Xd ! 4 - Xd ! 3 * Xd ! 1)
              - Xd ! 7 * (Xd ! 0 * Xd ! 5 - Xd ! 3 * Xd ! 2)
              + Xd ! 6 * (Xd ! 1 * Xd ! 5 - Xd ! 2 * Xd ! 4);
          hinv = 1 / h
      in ([  (Xd ! 4 * Xd ! 8 - Xd ! 5 * Xd ! 7) * hinv,
           - (Xd ! 1 * Xd ! 8 - Xd ! 2 * Xd ! 7) * hinv,
             (Xd ! 1 * Xd ! 5 - Xd ! 2 * Xd ! 4) * hinv,
           - (Xd ! 3 * Xd ! 8 - Xd ! 5 * Xd ! 6) * hinv,
             (Xd ! 0 * Xd ! 8 - Xd ! 2 * Xd ! 6) * hinv,
           - (Xd ! 0 * Xd ! 5 - Xd ! 2 * Xd ! 3) * hinv,
             (Xd ! 3 * Xd ! 7 - Xd ! 4 * Xd ! 6) * hinv,
           - (Xd ! 0 * Xd ! 7 - Xd ! 1 * Xd ! 6) * hinv,
             (Xd ! 0 * Xd ! 4 - Xd ! 1 * Xd ! 3) * hinv], h))"

definition crossProduct3D :: "real list \<Rightarrow> real list \<Rightarrow> real list" where
  "crossProduct3D a b =
     [a ! 1 * b ! 2 - a ! 2 * b ! 1, a ! 2 * b ! 0 - a ! 0 * b ! 2, a ! 0 * b ! 1 - a ! 1 * b ! 0]"

definition normalize3D :: "real list \<Rightarrow> real list" where
  "normalize3D a =
     (let n = sqrt (a ! 0 * a ! 0 + a ! 1 * a ! 1 + a ! 2 * a ! 2)
      in if n \<noteq> 0 then map (\<lambda>x. x * (1 / n)) a else a)"

definition computeJacobianTrans2D ::
  "real list \<Rightarrow> real list \<Rightarrow> real list \<Rightarrow> nat \<Rightarrow> real list \<times> real list \<times> real" where
  "computeJacobianTrans2D Xpts Na Nb num_nodes =
     (let ra = [strided_dot Xpts 3 0 Na num_nodes, strided_dot Xpts 3 1 Na num_nodes,
                strided_dot Xpts 3 2 Na num_nodes];
          rb = [strided_dot Xpts 3 0 Nb num_nodes, strided_dot Xpts 3 1 Nb num_nodes,
                strided_dot Xpts 3 2 Nb num_nodes];
          Xd = ra @ rb @ normalize3D (crossProduct3D ra rb);
          (J, h) = jacobian3d Xd
      in (Xd, J, h))"

definition computeJacobianTrans3D ::
  "real list \<Rightarrow> real list \<Rightarrow> real list \<Rightarrow> real list \<Rightarrow> nat \<Rightarrow> real list \<times> real list \<times> real" where
  "computeJacobianTrans3D Xpts Na Nb Nc num_nodes =
     (let Xd = [strided_dot Xpts 3 0 Na num_nodes, strided_dot Xpts 3 1 Na num_nodes,
                strided_dot Xpts 3 2 Na num_nodes,
                strided_dot Xpts 3 0 Nb num_nodes, strided_dot Xpts 3 1 Nb num_nodes,
                strided_dot Xpts 3 2 Nb num_nodes,
                strided_dot Xpts 3 0 Nc num_nodes, strided_dot Xpts 3 1 Nc num_nodes,
                strided_dot Xpts 3 2 Nc num_nodes];
          (J, h) = jacobian3d Xd
      in (Xd, J, h))"

subsection \<open>Nodal derivatives\<close>

text \<open>
  \<open>forest->evalInterp(pt, N, Na, Nb[, Nc])\<close> is a parameter of the model: the values
  and parametric derivatives of the Lagrange basis of the forest at a point.  The
  block of one knot holds, for each of the \<open>vars_per_node\<close> components, the physical
  gradient \<open>J Ud\<close> scaled by \<open>winv = 1/welem[slot]\<close>, or zeros at a dependent slot.
\<close>

type_synonym interp2 = "pt2 \<Rightarrow> real list \<times> real list \<times> real list"
type_synonym interp3 = "pt3 \<Rightarrow> real list \<times> real list \<times> real list \<times> real list"

definition nodeDerivKnot2D ::
  "nat \<Rightarrow> nat \<Rightarrow> real list \<Rightarrow> interp2 \<Rightarrow> real list \<Rightarrow> real list \<Rightarrow> real list \<Rightarrow> int list
   \<Rightarrow> nat \<Rightarrow> nat \<Rightarrow> real list" where
  "nodeDerivKnot2D vpn order knots interp Xpts uelem welem nodes ii jj =
     (let (N, Na, Nb) = interp (knots ! ii, knots ! jj);
          (Xd, J, h) = computeJacobianTrans2D Xpts Na Nb (order * order);
          Ud = concat (map (\<lambda>k. [strided_dot uelem vpn k Na (order * order),
                                  strided_dot uelem vpn k Nb (order * order)]) [0..<vpn]);
          slot = ii + jj * order;
          winv = 1 / welem ! slot
      in if 0 \<le> nodes ! slot then
           concat (map (\<lambda>k. [winv * (Ud ! (2 * k) * J ! 0 + Ud ! (2 * k + 1) * J ! 1),
                             winv * (Ud ! (2 * k) * J ! 3 + Ud ! (2 * k + 1) * J ! 4),
                             winv * (Ud ! (2 * k) * J ! 6 + Ud ! (2 * k + 1) * J ! 7)]) [0..<vpn])
         else replicate (3 * vpn) 0)"

definition nodeDerivKnot3D ::
  "nat \<Rightarrow> nat \<Rightarrow> real list \<Rightarrow> interp3 \<Rightarrow> real list \<Rightarrow> real list \<Rightarrow> real list \<Rightarrow> int list
   \<Rightarrow> nat \<Rightarrow> nat \<Rightarrow> nat \<Rightarrow> real list" where
  "nodeDerivKnot3D vpn order knots interp Xpts uelem welem nodes ii jj kk =
     (let (N, Na, Nb, Nc) = interp (knots ! ii, knots ! jj, knots ! kk);
          (Xd, J, h) = computeJacobianTrans3D Xpts Na Nb Nc (order * order * order);
          Ud = concat (map (\<lambda>k. [strided_dot uelem vpn k Na (order * order * order),
                                  strided_dot uelem vpn k Nb (order * order * order),
                                  strided_dot uelem vpn k Nc (order * order * order)]) [0..<vpn]);
          slot = ii + jj * order + kk * order * order;
          winv = 1 / welem ! slot
      in if 0 \<le> nodes ! slot then
           concat (map (\<lambda>k.
             [winv * (Ud ! (3 * k) * J ! 0 + Ud ! (3 * k + 1) * J ! 1 + Ud ! (3 * k + 2) * J ! 2),
              winv * (Ud ! (3 * k) * J ! 3 + Ud ! (3 * k + 1) * J ! 4 + Ud ! (3 * k + 2) * J ! 5),
              winv * (Ud ! (3 * k) * J ! 6 + Ud ! (3 * k + 1) * J ! 7 + Ud ! (3 * k + 2) * J ! 8)])
             [0..<vpn])
         else replicate (3 * vpn) 0)"

definition computeNodeDerivElem2D ::
  "nat \<Rightarrow> nat \<Rightarrow> real list \<Rightarrow> interp2 \<Rightarrow> real list \<Rightarrow> real list \<Rightarrow> real list \<Rightarrow> int list
   \<Rightarrow> real list" where
  "computeNodeDerivElem2D vpn order knots interp Xpts uelem welem nodes =
     concat [nodeDerivKnot2D vpn order knots interp Xpts uelem welem nodes ii jj.
               jj \<leftarrow> [0..<order], ii \<leftarrow> [0..<order]]"

definition computeNodeDerivElem3D ::
  "nat \<Rightarrow> nat \<Rightarrow> real list \<Rightarrow> interp3 \<Rightarrow> real list \<Rightarrow> real list \<Rightarrow> real list \<Rightarrow> int list
   \<Rightarrow> real list" where
  "computeNodeDerivElem3D vpn order knots interp Xpts uelem welem nodes =
     concat [nodeDerivKnot3D vpn order knots interp Xpts uelem welem nodes ii jj kk.
               kk \<leftarrow> [0..<order], jj \<leftarrow> [0..<order], ii \<leftarrow> [0..<order]]"

definition computeNodeDeriv2D ::
  "deptab \<Rightarrow> nat \<Rightarrow> nat \<Rightarrow> real list \<Rightarrow> interp2 \<Rightarrow> (nat \<Rightarrow> int list) \<Rightarrow> (nat \<Rightarrow> real list)
   \<Rightarrow> bvec \<Rightarrow> bvec \<Rightarrow> nat \<Rightarrow> nat list option \<Rightarrow> bvec" where
  "computeNodeDeriv2D dep vpn order knots interp conn xpts uvec weights nelems element_nums =
     foldl (\<lambda>D e. let nodes = conn e;
                      welem = getValues dep 1 nodes weights;
                      uelem = getValues dep vpn nodes uvec
                  in setValues_add dep (3 * vpn) nodes
                       (computeNodeDerivElem2D vpn order knots interp (xpts e) uelem welem nodes) D)
       zeroEntries (elementList nelems element_nums)"

definition computeNodeDeriv3D ::
  "deptab \<Rightarrow> nat \<Rightarrow> nat \<Rightarrow> real list \<Rightarrow> interp3 \<Rightarrow> (nat \<Rightarrow> int list) \<Rightarrow> (nat \<Rightarrow> real list)
   \<Rightarrow> bvec \<Rightarrow> bvec \<Rightarrow> nat \<Rightarrow> nat list option \<Rightarrow> bvec" where
  "computeNodeDeriv3D dep vpn order knots interp conn xpts uvec weights nelems element_nums =
     foldl (\<lambda>D e. let nodes = conn e;
                      welem = getValues dep 1 nodes weights;
                      uelem = getValues dep vpn nodes uvec
                  in setValues_add dep (3 * vpn) nodes
                       (computeNodeDerivElem3D vpn order knots interp (xpts e) uelem welem nodes) D)
       zeroEntries (elementList nelems element_nums)"

subsection \<open>Fields and bases the exactness properties speak about\<close>

text \<open>
  \<open>affine_nodal\<close>: the element values \<open>u\<close> sample the affine field
  \<open>a k + g k 0 * x + g k 1 * y + g k 2 * z\<close> at the element nodes \<open>X\<close>.
  \<open>knot_basis_ok3D\<close>: the parametric derivatives of the basis at a knot sum to zero,
  as those of a basis that reproduces constants do.  \<open>knot_nondegenerate3D\<close>: the
  Jacobian determinant at the knot is non-zero.
\<close>

definition affine_nodal ::
  "nat \<Rightarrow> nat \<Rightarrow> (nat \<Rightarrow> real) \<Rightarrow> (nat \<Rightarrow> nat \<Rightarrow> real) \<Rightarrow> real list \<Rightarrow> real list \<Rightarrow> bool" where
  "affine_nodal vpn n a g X u \<longleftrightarrow>
     (\<forall>i < n. \<forall>k < vpn. u ! (vpn * i + k) =
        a k + g k 0 * X ! (3 * i) + g k 1 * X ! (3 * i + 1) + g k 2 * X ! (3 * i + 2))"

definition knot_basis_ok3D :: "nat \<Rightarrow> real list \<Rightarrow> interp3 \<Rightarrow> nat \<Rightarrow> nat \<Rightarrow> nat \<Rightarrow> bool" where
  "knot_basis_ok3D p knots interp ii jj kk \<longleftrightarrow>
     (case interp (knots ! ii, knots ! jj, knots ! kk) of (N, Na, Nb, Nc) \<Rightarrow>
        sum_list (map (\<lambda>i. Na ! i) [0..<p * p * p]) = 0 \<and>
        sum_list (map (\<lambda>i. Nb ! i) [0..<p * p * p]) = 0 \<and>
        sum_list (map (\<lambda>i. Nc ! i) [0..<p * p * p]) = 0)"

definition knot_nondegenerate3D ::
  "nat \<Rightarrow> real list \<Rightarrow> interp3 \<Rightarrow> real list \<Rightarrow> nat \<Rightarrow> nat \<Rightarrow> nat \<Rightarrow> bool" where
  "knot_nondegenerate3D p knots interp X ii jj kk \<longleftrightarrow>
     (case interp (knots ! ii, knots ! jj, knots ! kk) of (N, Na, Nb, Nc) \<Rightarrow>
        snd (snd (computeJacobianTrans3D X Na Nb Nc (p * p * p))) \<noteq> 0)"

subsection \<open>Semantics of the additive set\<close>

text \<open>
  Adding a block whose entries at dependent slots are zero changes each independent
  entry by the sum of the values written at the slots that name it.
\<close>

definition slot_sum :: "nat \<Rightarrow> int list \<Rightarrow> real list \<Rightarrow> nat \<Rightarrow> nat \<Rightarrow> real" where
  "slot_sum bs nodes vals m c =
     sum_list (map (\<lambda>j. if nodes ! j = int m \<and> c < bs then vals ! (bs * j + c) else 0) [0..<length nodes])"

definition dep_slots_zero :: "nat \<Rightarrow> int list \<Rightarrow> real list \<Rightarrow> bool" where
  "dep_slots_zero bs nodes vals \<longleftrightarrow>
     (\<forall>j < length nodes. nodes ! j < 0 \<longrightarrow> (\<forall>c < bs. vals ! (bs * j + c) = 0))"

lemma foldl_keep: "foldl (\<lambda>v (m, w). v) v ds = v"
  by (induction ds arbitrary: v) auto

lemma addValue_dep_zero: "n < 0 \<Longrightarrow> addValue dep n c 0 v = v"
  by (simp add: addValue_def foldl_keep)

lemma foldl_addValue_indep:
  assumes "0 \<le> n"
  shows "foldl (\<lambda>v c. addValue dep n c (f c) v) v cs m c =
         v m c + (if int m = n then sum_list (map (\<lambda>c'. if c' = c then f c' else 0) cs) else 0)"
  using assms
  by (induction cs arbitrary: v) (auto simp: addValue_def)

lemma foldl_addValue_dep_zero:
  assumes "n < 0" "\<And>c. c \<in> set cs \<Longrightarrow> f c = 0"
  shows "foldl (\<lambda>v c. addValue dep n c (f c) v) v cs = v"
  using assms
  by (induction cs arbitrary: v) (auto simp: addValue_dep_zero)

lemma sum_list_upt_select:
  "sum_list (map (\<lambda>c'. if c' = c then f c' else 0) [0..<bs]) = (if c < bs then f c else (0::real))"
  by (induction bs) auto

lemma setValues_add_apply:
  assumes "dep_slots_zero bs nodes vals" "bs * length nodes \<le> length vals"
  shows "setValues_add dep bs nodes vals v m c = v m c + slot_sum bs nodes vals m c"
  using assms
proof (induction nodes arbitrary: vals v)
  case Nil
  then show ?case by (simp add: slot_sum_def)
next
  case (Cons n ns)
  let ?v' = "foldl (\<lambda>v c. addValue dep n c (vals ! c) v) v [0..<bs]"
  have len: "bs \<le> length vals" "bs * length ns \<le> length (drop bs vals)"
    using Cons.prems(2) by auto
  have tail: "dep_slots_zero bs ns (drop bs vals)"
  proof (unfold dep_slots_zero_def, intro allI impI)
    fix j c assume "j < length ns" "ns ! j < 0" "c < bs"
    moreover from this Cons.prems(1) have "\<forall>c<bs. vals ! (bs * Suc j + c) = 0"
      unfolding dep_slots_zero_def by (metis Suc_less_eq length_Cons nth_Cons_Suc)
    ultimately show "drop bs vals ! (bs * j + c) = 0"
      using len(1) by (simp add: add.assoc add.left_commute)
  qed
  have head: "?v' m c = v m c + (if int m = n \<and> c < bs then vals ! c else 0)"
  proof (cases "0 \<le> n")
    case True
    then show ?thesis by (simp add: foldl_addValue_indep sum_list_upt_select)
  next
    case False
    have "\<And>c. c \<in> set [0..<bs] \<Longrightarrow> vals ! c = 0"
      using Cons.prems False by (auto simp: dep_slots_zero_def dest: spec[where x = 0])
    with False show ?thesis
      using foldl_addValue_dep_zero[of n "[0..<bs]" "\<lambda>c. vals ! c" dep v] by simp
  qed
  have shift: "slot_sum bs (n # ns) vals m c =
      (if int m = n \<and> c < bs then vals ! c else 0) + slot_sum bs ns (drop bs vals) m c"
    unfolding slot_sum_def using len(1)
    by (simp add: upt_conv_Cons map_Suc_upt[symmetric] del: upt_Suc)
      (auto intro!: arg_cong[where f = sum_list] simp: algebra_simps)
  show ?case
    using Cons.IH[OF tail len(2), of ?v'] head shift by simp
qed


lemma foldl_setValues_add_apply:
  assumes "\<And>e. e \<in> set es \<Longrightarrow> dep_slots_zero bs (conn e) (blk e) \<and> bs * length (conn e) \<le> length (blk e)"
  shows "foldl (\<lambda>D e. setValues_add dep bs (conn e) (blk e) D) v es m c =
         v m c + (\<Sum>e\<leftarrow>es. slot_sum bs (conn e) (blk e) m c)"
  using assms by (induction es arbitrary: v) (auto simp: setValues_add_apply)

lemma getValues_nth:
  assumes "j < length nodes" "c < bs"
  shows "getValues dep bs nodes v ! (bs * j + c) = getValue dep (nodes ! j) c v"
  unfolding getValues_def using assms by (simp add: nth_concat_blocks)

text \<open>
  The weight of an independent node is the number of slots, over the visited elements,
  that name it (section 3, "Weight vector").
\<close>

theorem computeLocalWeights_count:
  "computeLocalWeights dep conn nelems element_nums m c =
     (if c = 0 then (\<Sum>e\<leftarrow>elementList nelems element_nums. real (count (mset (conn e)) (int m)))
      else 0)"
proof -
  let ?val = "\<lambda>e. map (\<lambda>n. if n < 0 then 0 else (1::real)) (conn e)"
  have ok: "dep_slots_zero 1 (conn e) (?val e) \<and> 1 * length (conn e) \<le> length (?val e)" for e
    by (simp add: dep_slots_zero_def)
  have slot: "slot_sum 1 (conn e) (?val e) m c =
      (if c = 0 then real (count (mset (conn e)) (int m)) else 0)" for e
  proof (cases "c = 0")
    case True
    have "slot_sum 1 (conn e) (?val e) m c =
          (\<Sum>j\<leftarrow>[0..<length (conn e)]. if conn e ! j = int m then 1 else 0)"
      unfolding slot_sum_def using True by (intro arg_cong[where f = sum_list] map_cong) auto
    with True show ?thesis by (simp add: sum_list_indicator_count)
  qed (simp add: slot_sum_def)
  show ?thesis
    unfolding computeLocalWeights_def
    using foldl_setValues_add_apply[of _ 1 conn ?val] ok slot by (simp add: zeroEntries_def)
qed

subsection \<open>The element kernels\<close>

lemma length_nodeDerivKnot3D:
  "length (nodeDerivKnot3D vpn p knots interp X u w nodes ii jj kk) = 3 * vpn"
  by (simp add: nodeDerivKnot3D_def Let_def split: prod.split)

lemma length_nodeDerivKnot2D:
  "length (nodeDerivKnot2D vpn p knots interp X u w nodes ii jj) = 3 * vpn"
  by (simp add: nodeDerivKnot2D_def Let_def split: prod.split)

lemma computeNodeDerivElem3D_slot:
  assumes "s < p * p * p" "c < 3 * vpn"
  shows "computeNodeDerivElem3D vpn p knots interp X u w nodes ! (3 * vpn * s + c) =
         nodeDerivKnot3D vpn p knots interp X u w nodes (s mod p) (s div p mod p) (s div p div p) ! c"
  using assms unfolding computeNodeDerivElem3D_def
  by (simp add: grid3_as_slots nth_concat_blocks length_nodeDerivKnot3D del: upt_Suc)

lemma computeNodeDerivElem2D_slot:
  assumes "s < p * p" "c < 3 * vpn"
  shows "computeNodeDerivElem2D vpn p knots interp X u w nodes ! (3 * vpn * s + c) =
         nodeDerivKnot2D vpn p knots interp X u w nodes (s mod p) (s div p) ! c"
  using assms unfolding computeNodeDerivElem2D_def
  by (simp add: grid2_as_slots nth_concat_blocks length_nodeDerivKnot2D del: upt_Suc)

lemma nodeDerivKnot3D_scale:
  assumes "ii + jj * p + kk * p * p < p * p * p"
  shows "nodeDerivKnot3D vpn p knots interp X u w nodes ii jj kk =
    (if 0 \<le> nodes ! (ii + jj * p + kk * p * p)
     then map (\<lambda>x. 1 / w ! (ii + jj * p + kk * p * p) * x)
            (nodeDerivKnot3D vpn p knots interp X u (replicate (p * p * p) 1) nodes ii jj kk)
     else replicate (3 * vpn) 0)"
  using assms by (simp add: nodeDerivKnot3D_def Let_def map_concat_triples split: prod.split)

lemma nodeDerivKnot2D_scale:
  assumes "ii + jj * p < p * p"
  shows "nodeDerivKnot2D vpn p knots interp X u w nodes ii jj =
    (if 0 \<le> nodes ! (ii + jj * p)
     then map (\<lambda>x. 1 / w ! (ii + jj * p) * x)
            (nodeDerivKnot2D vpn p knots interp X u (replicate (p * p) 1) nodes ii jj)
     else replicate (3 * vpn) 0)"
  using assms by (simp add: nodeDerivKnot2D_def Let_def map_concat_triples split: prod.split)

lemma length_computeNodeDerivElem3D:
  "length (computeNodeDerivElem3D vpn p knots interp X u w nodes) = p * p * p * (3 * vpn)"
  unfolding computeNodeDerivElem3D_def
  by (simp add: grid3_as_slots length_concat_blocks length_nodeDerivKnot3D del: upt_Suc)

lemma length_computeNodeDerivElem2D:
  "length (computeNodeDerivElem2D vpn p knots interp X u w nodes) = p * p * (3 * vpn)"
  unfolding computeNodeDerivElem2D_def
  by (simp add: grid2_as_slots length_concat_blocks length_nodeDerivKnot2D del: upt_Suc)

lemma computeNodeDerivElem3D_entry:
  assumes "s < p * p * p" "c < 3 * vpn"
  shows "computeNodeDerivElem3D vpn p knots interp X u w nodes ! (3 * vpn * s + c) =
    (if 0 \<le> nodes ! s
     then 1 / w ! s * computeNodeDerivElem3D vpn p knots interp X u (replicate (p * p * p) 1) nodes
                        ! (3 * vpn * s + c)
     else 0)"
  using assms nodeDerivKnot3D_scale[of "s mod p" "s div p mod p" p "s div p div p" vpn knots interp X u w nodes]
  by (simp add: slot_decompose3 computeNodeDerivElem3D_slot length_nodeDerivKnot3D)

lemma computeNodeDerivElem2D_entry:
  assumes "s < p * p" "c < 3 * vpn"
  shows "computeNodeDerivElem2D vpn p knots interp X u w nodes ! (3 * vpn * s + c) =
    (if 0 \<le> nodes ! s
     then 1 / w ! s * computeNodeDerivElem2D vpn p knots interp X u (replicate (p * p) 1) nodes
                        ! (3 * vpn * s + c)
     else 0)"
  using assms nodeDerivKnot2D_scale[of "s mod p" "s div p" p vpn knots interp X u w nodes]
  by (simp add: computeNodeDerivElem2D_slot length_nodeDerivKnot2D)

lemma slot_sum_scale:
  assumes "\<And>j. j < length nodes \<Longrightarrow> nodes ! j = int m \<Longrightarrow> c < bs \<Longrightarrow>
             blk ! (bs * j + c) = r * raw ! (bs * j + c)"
  shows "slot_sum bs nodes blk m c = r * slot_sum bs nodes raw m c"
  unfolding slot_sum_def sum_list_map_mult_const[symmetric]
  using assms by (intro arg_cong[where f = sum_list] map_cong) auto

text \<open>
  Assembly of a nodal average: an element kernel that writes, at each independent
  slot, a raw sample divided by the weight it reads there, and zeros at dependent
  slots, yields at each node the sum of its raw samples divided by its weight.
\<close>

lemma assembly_average:
  assumes len: "\<And>e. e \<in> set es \<Longrightarrow> length (conn e) = n"
    and klen: "\<And>e w. e \<in> set es \<Longrightarrow> length (K e w) = n * bs"
    and scale: "\<And>e w j c. e \<in> set es \<Longrightarrow> j < n \<Longrightarrow> c < bs \<Longrightarrow>
        K e w ! (bs * j + c) = (if 0 \<le> conn e ! j then 1 / w ! j * K e (replicate n 1) ! (bs * j + c) else 0)"
  shows "foldl (\<lambda>D e. setValues_add dep bs (conn e) (K e (getValues dep 1 (conn e) W)) D) zeroEntries es m c =
         (\<Sum>e\<leftarrow>es. slot_sum bs (conn e) (K e (replicate n 1)) m c) / W m 0"
proof -
  let ?blk = "\<lambda>e. K e (getValues dep 1 (conn e) W)"
  have ok: "dep_slots_zero bs (conn e) (?blk e) \<and> bs * length (conn e) \<le> length (?blk e)"
    if e: "e \<in> set es" for e
  proof -
    have "?blk e ! (bs * j + c) = 0" if "j < length (conn e)" "conn e ! j < 0" "c < bs" for j c
      using scale[where e = e and w = "getValues dep 1 (conn e) W" and j = j and c = c] len[OF e] that e by simp
    then show ?thesis
      using klen[OF e] len[OF e] by (auto simp: dep_slots_zero_def mult.commute)
  qed
  have entry: "?blk e ! (bs * j + c) = 1 / W m 0 * K e (replicate n 1) ! (bs * j + c)"
    if "e \<in> set es" "j < length (conn e)" "conn e ! j = int m" "c < bs" for e j
    using that len[of e] scale[where e = e and w = "getValues dep 1 (conn e) W" and j = j and c = c] getValues_nth[of j "conn e" 0 1 dep W]
    by (simp add: getValue_def)
  have "foldl (\<lambda>D e. setValues_add dep bs (conn e) (?blk e) D) zeroEntries es m c =
        (\<Sum>e\<leftarrow>es. slot_sum bs (conn e) (?blk e) m c)"
    using foldl_setValues_add_apply[of es bs conn ?blk] ok by (simp add: zeroEntries_def)
  also have "\<dots> = (\<Sum>e\<leftarrow>es. 1 / W m 0 * slot_sum bs (conn e) (K e (replicate n 1)) m c)"
    using entry by (intro arg_cong[where f = sum_list] map_cong refl slot_sum_scale) auto
  finally show ?thesis
    by (simp add: sum_list_map_divide_const)
qed

subsection \<open>Exactness of the projector\<close>

text \<open>
  \<open>J\<close> is a left inverse of \<open>Xd\<close> when the determinant is non-zero.
\<close>

lemma jacobian3d_left_inverse:
  assumes "jacobian3d Xd = (J, h)" "h \<noteq> 0" "y < 3" "x < 3"
  shows "J ! (3 * y) * Xd ! x + J ! (3 * y + 1) * Xd ! (3 + x) + J ! (3 * y + 2) * Xd ! (6 + x) =
         (if y = x then 1 else 0)"
proof -
  let ?C = "[Xd ! 4 * Xd ! 8 - Xd ! 5 * Xd ! 7, - (Xd ! 1 * Xd ! 8 - Xd ! 2 * Xd ! 7),
             Xd ! 1 * Xd ! 5 - Xd ! 2 * Xd ! 4, - (Xd ! 3 * Xd ! 8 - Xd ! 5 * Xd ! 6),
             Xd ! 0 * Xd ! 8 - Xd ! 2 * Xd ! 6, - (Xd ! 0 * Xd ! 5 - Xd ! 2 * Xd ! 3),
             Xd ! 3 * Xd ! 7 - Xd ! 4 * Xd ! 6, - (Xd ! 0 * Xd ! 7 - Xd ! 1 * Xd ! 6),
             Xd ! 0 * Xd ! 4 - Xd ! 1 * Xd ! 3]"
  have h: "h = Xd ! 8 * (Xd ! 0 * Xd ! 4 - Xd ! 3 * Xd ! 1) - Xd ! 7 * (Xd ! 0 * Xd ! 5 - Xd ! 3 * Xd ! 2)
            + Xd ! 6 * (Xd ! 1 * Xd ! 5 - Xd ! 2 * Xd ! 4)"
    and J: "J = map (\<lambda>t. t * (1 / h)) ?C"
    using assms(1) by (auto simp: jacobian3d_def Let_def)
  have yx: "y \<in> {0, 1, 2}" "x \<in> {0, 1, 2}" using assms(3,4) by auto
  have num: "?C ! (3 * y) * Xd ! x + ?C ! (3 * y + 1) * Xd ! (3 + x) + ?C ! (3 * y + 2) * Xd ! (6 + x) =
             (if y = x then h else 0)"
    using yx unfolding h by (auto simp: algebra_simps)
  have "J ! (3 * y) * Xd ! x + J ! (3 * y + 1) * Xd ! (3 + x) + J ! (3 * y + 2) * Xd ! (6 + x) =
        (?C ! (3 * y) * Xd ! x + ?C ! (3 * y + 1) * Xd ! (3 + x) + ?C ! (3 * y + 2) * Xd ! (6 + x)) / h"
  proof -
    have "J ! i = ?C ! i / h" if "i < 9" for i
      using that unfolding J by (subst nth_map) auto
    then have "J ! (3 * y) = ?C ! (3 * y) / h" "J ! (3 * y + 1) = ?C ! (3 * y + 1) / h"
      "J ! (3 * y + 2) = ?C ! (3 * y + 2) / h"
      using assms(3) by auto
    then show ?thesis by (simp add: add_divide_distrib)
  qed
  then show ?thesis
    using num assms(2) by simp
qed

lemma nodeDerivKnot3D_unit_entry:
  assumes I: "interp (knots ! ii, knots ! jj, knots ! kk) = (N, Na, Nb, Nc)"
    and JT: "computeJacobianTrans3D X Na Nb Nc (p * p * p) = (Xd, J, h)"
    and idx: "ii + jj * p + kk * p * p < p * p * p" and k: "k < vpn" and y: "y < 3"
  shows "nodeDerivKnot3D vpn p knots interp X u (replicate (p * p * p) 1) nodes ii jj kk ! (3 * k + y) =
    (if 0 \<le> nodes ! (ii + jj * p + kk * p * p)
     then [strided_dot u vpn k Na (p * p * p) * J ! 0 + strided_dot u vpn k Nb (p * p * p) * J ! 1
             + strided_dot u vpn k Nc (p * p * p) * J ! 2,
           strided_dot u vpn k Na (p * p * p) * J ! 3 + strided_dot u vpn k Nb (p * p * p) * J ! 4
             + strided_dot u vpn k Nc (p * p * p) * J ! 5,
           strided_dot u vpn k Na (p * p * p) * J ! 6 + strided_dot u vpn k Nb (p * p * p) * J ! 7
             + strided_dot u vpn k Nc (p * p * p) * J ! 8] ! y
     else 0)"
  using idx k y I JT by (simp add: nodeDerivKnot3D_def Let_def nth_concat_triples nth_concat_blocks)

lemma nodeDerivKnot3D_constant:
  assumes basis: "knot_basis_ok3D p knots interp ii jj kk"
    and const: "\<forall>i < p * p * p. u ! (vpn * i + k) = a"
    and idx: "ii + jj * p + kk * p * p < p * p * p" and k: "k < vpn" and y: "y < 3"
  shows "nodeDerivKnot3D vpn p knots interp X u (replicate (p * p * p) 1) nodes ii jj kk ! (3 * k + y) = 0"
proof -
  obtain N Na Nb Nc where I: "interp (knots ! ii, knots ! jj, knots ! kk) = (N, Na, Nb, Nc)"
    by (cases "interp (knots ! ii, knots ! jj, knots ! kk)") auto
  obtain Xd J h where JT: "computeJacobianTrans3D X Na Nb Nc (p * p * p) = (Xd, J, h)"
    by (cases "computeJacobianTrans3D X Na Nb Nc (p * p * p)") auto
  have c0: "\<forall>i < p * p * p. u ! (vpn * i + k) = a + 0 * X ! (3 * i) + 0 * X ! (3 * i + 1) + 0 * X ! (3 * i + 2)"
    using const by simp
  have "strided_dot u vpn k Na (p * p * p) = 0" "strided_dot u vpn k Nb (p * p * p) = 0"
    "strided_dot u vpn k Nc (p * p * p) = 0"
    using basis I strided_dot_affine[OF c0] by (simp_all add: knot_basis_ok3D_def)
  then show ?thesis
    using nodeDerivKnot3D_unit_entry[where interp = interp and knots = knots and ii = ii and jj = jj
        and kk = kk and p = p and X = X and u = u and nodes = nodes, OF I JT idx k y] y
    by (auto simp: less_Suc_eq numeral_3_eq_3)
qed

lemma nodeDerivKnot3D_affine:
  assumes basis: "knot_basis_ok3D p knots interp ii jj kk"
    and nondeg: "knot_nondegenerate3D p knots interp X ii jj kk"
    and aff: "affine_nodal vpn (p * p * p) a g X u"
    and idx: "ii + jj * p + kk * p * p < p * p * p" and k: "k < vpn" and y: "y < 3"
  shows "nodeDerivKnot3D vpn p knots interp X u (replicate (p * p * p) 1) nodes ii jj kk ! (3 * k + y) =
         (if 0 \<le> nodes ! (ii + jj * p + kk * p * p) then g k y else 0)"
proof -
  let ?n = "p * p * p"
  have y3: "y \<in> {0, 1, 2}" using y by auto
  obtain N Na Nb Nc where I: "interp (knots ! ii, knots ! jj, knots ! kk) = (N, Na, Nb, Nc)"
    by (cases "interp (knots ! ii, knots ! jj, knots ! kk)") auto
  define Xd where "Xd = [strided_dot X 3 0 Na ?n, strided_dot X 3 1 Na ?n, strided_dot X 3 2 Na ?n,
    strided_dot X 3 0 Nb ?n, strided_dot X 3 1 Nb ?n, strided_dot X 3 2 Nb ?n,
    strided_dot X 3 0 Nc ?n, strided_dot X 3 1 Nc ?n, strided_dot X 3 2 Nc ?n]"
  obtain J h where Jh: "jacobian3d Xd = (J, h)"
    by (cases "jacobian3d Xd") auto
  have JT: "computeJacobianTrans3D X Na Nb Nc ?n = (Xd, J, h)"
    using Jh by (simp add: computeJacobianTrans3D_def Xd_def)
  have h: "h \<noteq> 0"
    using nondeg I JT by (simp add: knot_nondegenerate3D_def)
  have aff_k: "\<forall>i < ?n. u ! (vpn * i + k) =
      a k + g k 0 * X ! (3 * i) + g k 1 * X ! (3 * i + 1) + g k 2 * X ! (3 * i + 2)"
    using aff k by (simp add: affine_nodal_def)
  have sums: "sum_list (map (\<lambda>i. Na ! i) [0..<?n]) = 0" "sum_list (map (\<lambda>i. Nb ! i) [0..<?n]) = 0"
    "sum_list (map (\<lambda>i. Nc ! i) [0..<?n]) = 0"
    using basis I by (simp_all add: knot_basis_ok3D_def)
  have Ud: "strided_dot u vpn k Na ?n = g k 0 * Xd ! 0 + g k 1 * Xd ! 1 + g k 2 * Xd ! 2"
    "strided_dot u vpn k Nb ?n = g k 0 * Xd ! 3 + g k 1 * Xd ! 4 + g k 2 * Xd ! 5"
    "strided_dot u vpn k Nc ?n = g k 0 * Xd ! 6 + g k 1 * Xd ! 7 + g k 2 * Xd ! 8"
    using strided_dot_affine[OF aff_k sums(1)] strided_dot_affine[OF aff_k sums(2)]
      strided_dot_affine[OF aff_k sums(3)] by (simp_all add: Xd_def)
  have inv: "J ! (3 * y) * Xd ! x + J ! (3 * y + 1) * Xd ! (3 + x) + J ! (3 * y + 2) * Xd ! (6 + x) =
             (if y = x then 1 else 0)" if "x < 3" for x
    using jacobian3d_left_inverse[OF Jh h y that] .
  let ?d = "[strided_dot u vpn k Na ?n * J ! 0 + strided_dot u vpn k Nb ?n * J ! 1 + strided_dot u vpn k Nc ?n * J ! 2,
             strided_dot u vpn k Na ?n * J ! 3 + strided_dot u vpn k Nb ?n * J ! 4 + strided_dot u vpn k Nc ?n * J ! 5,
             strided_dot u vpn k Na ?n * J ! 6 + strided_dot u vpn k Nb ?n * J ! 7 + strided_dot u vpn k Nc ?n * J ! 8]"
  have entry: "nodeDerivKnot3D vpn p knots interp X u (replicate ?n 1) nodes ii jj kk ! (3 * k + y) =
      (if 0 \<le> nodes ! (ii + jj * p + kk * p * p) then ?d ! y else 0)"
    by (rule nodeDerivKnot3D_unit_entry[where interp = interp and knots = knots and ii = ii and jj = jj
        and kk = kk and p = p and X = X, OF I JT idx k y])
  have "?d ! y = g k 0 * (J ! (3 * y) * Xd ! 0 + J ! (3 * y + 1) * Xd ! 3 + J ! (3 * y + 2) * Xd ! 6)
               + g k 1 * (J ! (3 * y) * Xd ! 1 + J ! (3 * y + 1) * Xd ! 4 + J ! (3 * y + 2) * Xd ! 7)
               + g k 2 * (J ! (3 * y) * Xd ! 2 + J ! (3 * y + 1) * Xd ! 5 + J ! (3 * y + 2) * Xd ! 8)"
    using y3 unfolding Ud by (auto simp: algebra_simps numeral_2_eq_2)
  also have "\<dots> = g k y"
    using inv[of 0] inv[of 1] inv[of 2] y3 by auto
  finally show ?thesis
    using entry by simp
qed

text \<open>
  The assembled derivative at a node is the sum of the unit-weight samples that the
  elements write at the slots naming it, divided by the weight of the node.
\<close>

lemma computeNodeDeriv3D_sum_div:
  assumes "\<forall>e \<in> set (elementList nelems element_nums). length (conn e) = order * order * order"
  shows "computeNodeDeriv3D dep vpn order knots interp conn xpts uvec W nelems element_nums m c =
         (\<Sum>e\<leftarrow>elementList nelems element_nums.
            slot_sum (3 * vpn) (conn e)
              (computeNodeDerivElem3D vpn order knots interp (xpts e) (getValues dep vpn (conn e) uvec)
                 (replicate (order * order * order) 1) (conn e)) m c) / W m 0"
  unfolding computeNodeDeriv3D_def Let_def
  apply (rule assembly_average[where K = "\<lambda>e w. computeNodeDerivElem3D vpn order knots interp (xpts e)
            (getValues dep vpn (conn e) uvec) w (conn e)"])
  using assms apply simp
   apply (simp add: length_computeNodeDerivElem3D)
  apply (rule computeNodeDerivElem3D_entry; assumption)
  done

lemma slot_sum_const:
  assumes "\<And>j. j < length nodes \<Longrightarrow> nodes ! j = int m \<Longrightarrow> blk ! (bs * j + c) = v" "c < bs"
  shows "slot_sum bs nodes blk m c = v * real (count (mset nodes) (int m))"
proof -
  have "slot_sum bs nodes blk m c = v * (\<Sum>j\<leftarrow>[0..<length nodes]. if nodes ! j = int m then 1 else 0)"
    unfolding slot_sum_def sum_list_map_mult_const[symmetric]
    using assms by (intro arg_cong[where f = sum_list] map_cong) auto
  then show ?thesis
    by (simp add: sum_list_indicator_count)
qed

subsection \<open>Properties of the projector\<close>

text \<open>C1. Nodal averaging (section 8, invariant 2): with the weights of
  \<open>computeLocalWeights\<close> over the same elements, the derivative that
  \<open>computeNodeDeriv3D\<close> assembles at an independent node is the sum of the gradient
  samples that the elements compute at the slots naming the node, divided by the
  number of those slots.
\<close>

theorem computeNodeDeriv3D_average:
  assumes "\<forall>e \<in> set (elementList nelems element_nums). length (conn e) = order * order * order"
  shows "computeNodeDeriv3D dep vpn order knots interp conn xpts uvec
           (computeLocalWeights dep conn nelems element_nums) nelems element_nums m c =
         (\<Sum>e\<leftarrow>elementList nelems element_nums.
            slot_sum (3 * vpn) (conn e)
              (computeNodeDerivElem3D vpn order knots interp (xpts e) (getValues dep vpn (conn e) uvec)
                 (replicate (order * order * order) 1) (conn e)) m c)
         / (\<Sum>e\<leftarrow>elementList nelems element_nums. real (count (mset (conn e)) (int m)))"
  using computeNodeDeriv3D_sum_div[OF assms] by (simp add: computeLocalWeights_count)

text \<open>C2. Patch test (section 8, scenario S1): when the parametric basis derivatives at
  every knot sum to zero, every knot Jacobian is invertible, and the element values
  sample an affine field \<open>a + g x\<close>, \<open>computeNodeDeriv3D\<close> returns exactly the
  gradient \<open>g\<close> at every node that an element references.
\<close>

theorem computeNodeDeriv3D_affine_exact:
  assumes len: "\<forall>e \<in> set (elementList nelems element_nums). length (conn e) = order * order * order"
    and basis: "\<forall>ii < order. \<forall>jj < order. \<forall>kk < order. knot_basis_ok3D order knots interp ii jj kk"
    and nondeg: "\<forall>e \<in> set (elementList nelems element_nums). \<forall>ii < order. \<forall>jj < order. \<forall>kk < order.
                   knot_nondegenerate3D order knots interp (xpts e) ii jj kk"
    and aff: "\<forall>e \<in> set (elementList nelems element_nums).
                affine_nodal vpn (order * order * order) a g (xpts e) (getValues dep vpn (conn e) uvec)"
    and ref: "0 < (\<Sum>e\<leftarrow>elementList nelems element_nums. count (mset (conn e)) (int m))"
    and k: "k < vpn" and y: "y < 3"
  shows "computeNodeDeriv3D dep vpn order knots interp conn xpts uvec
           (computeLocalWeights dep conn nelems element_nums) nelems element_nums m (3 * k + y) = g k y"
proof -
  let ?es = "elementList nelems element_nums"
  let ?raw = "\<lambda>e. computeNodeDerivElem3D vpn order knots interp (xpts e) (getValues dep vpn (conn e) uvec)
                 (replicate (order * order * order) 1) (conn e)"
  have c: "3 * k + y < 3 * vpn" using k y by simp
  have sample: "?raw e ! (3 * vpn * j + (3 * k + y)) = g k y"
    if e: "e \<in> set ?es" and j: "j < length (conn e)" and m: "conn e ! j = int m" for e j
  proof -
    let ?ii = "j mod order" and ?jj = "j div order mod order" and ?kk = "j div order div order"
    have jn: "j < order * order * order" using j len e by simp
    then have pos: "0 < order" by (cases order) auto
    have lt: "?ii < order" "?jj < order" "?kk < order"
      using pos jn by (auto simp: div_less_iff_less_mult mult.assoc)
    have "?raw e ! (3 * vpn * j + (3 * k + y)) =
          nodeDerivKnot3D vpn order knots interp (xpts e) (getValues dep vpn (conn e) uvec)
            (replicate (order * order * order) 1) (conn e) ?ii ?jj ?kk ! (3 * k + y)"
      using jn c by (rule computeNodeDerivElem3D_slot)
    also have "\<dots> = g k y"
      using nodeDerivKnot3D_affine[of order knots interp ?ii ?jj ?kk "xpts e" vpn a g
          "getValues dep vpn (conn e) uvec" k y "conn e"] basis nondeg aff e lt k y jn m
      by (simp add: slot_decompose3)
    finally show ?thesis .
  qed
  have "computeNodeDeriv3D dep vpn order knots interp conn xpts uvec
          (computeLocalWeights dep conn nelems element_nums) nelems element_nums m (3 * k + y) =
        (\<Sum>e\<leftarrow>?es. g k y * real (count (mset (conn e)) (int m))) /
        (\<Sum>e\<leftarrow>?es. real (count (mset (conn e)) (int m)))"
    unfolding computeNodeDeriv3D_sum_div[OF len] computeLocalWeights_count
    using sample c by (simp add: slot_sum_const cong: map_cong)
  also have "\<dots> = g k y * real (\<Sum>e\<leftarrow>?es. count (mset (conn e)) (int m)) /
                    real (\<Sum>e\<leftarrow>?es. count (mset (conn e)) (int m))"
    by (simp only: sum_list_map_mult_const sum_list_real_of_nat)
  also have "\<dots> = g k y"
    using ref by (metis less_irrefl nonzero_mult_div_cancel_right of_nat_0_less_iff)
  finally show ?thesis .
qed

text \<open>Null case (section 8, invariant 3): when the parametric basis derivatives at
  every knot sum to zero and the element values are constant in each component,
  \<open>computeNodeDeriv3D\<close> returns zero at every node and component, whatever the
  weights.
\<close>

theorem computeNodeDeriv3D_constant_zero:
  assumes len: "\<forall>e \<in> set (elementList nelems element_nums). length (conn e) = order * order * order"
    and basis: "\<forall>ii < order. \<forall>jj < order. \<forall>kk < order. knot_basis_ok3D order knots interp ii jj kk"
    and const: "\<forall>e \<in> set (elementList nelems element_nums). \<forall>i < order * order * order. \<forall>k < vpn.
                  getValues dep vpn (conn e) uvec ! (vpn * i + k) = a k"
  shows "computeNodeDeriv3D dep vpn order knots interp conn xpts uvec W nelems element_nums m c = 0"
proof (cases "c < 3 * vpn")
  case True
  let ?raw = "\<lambda>e. computeNodeDerivElem3D vpn order knots interp (xpts e) (getValues dep vpn (conn e) uvec)
                 (replicate (order * order * order) 1) (conn e)"
  obtain k y where ky: "c = 3 * k + y" "k < vpn" "y < 3"
    using True by (metis div_mod_decomp mod_less_divisor mult.commute nat_0_less_mult_iff zero_less_numeral
        div_less_iff_less_mult)
  have sample: "?raw e ! (3 * vpn * j + c) = 0"
    if e: "e \<in> set (elementList nelems element_nums)" and j: "j < length (conn e)" for e j
  proof -
    let ?ii = "j mod order" and ?jj = "j div order mod order" and ?kk = "j div order div order"
    have jn: "j < order * order * order" using j len e by simp
    then have pos: "0 < order" by (cases order) auto
    have lt: "?ii < order" "?jj < order" "?kk < order"
      using pos jn by (auto simp: div_less_iff_less_mult mult.assoc)
    have "?raw e ! (3 * vpn * j + c) =
          nodeDerivKnot3D vpn order knots interp (xpts e) (getValues dep vpn (conn e) uvec)
            (replicate (order * order * order) 1) (conn e) ?ii ?jj ?kk ! (3 * k + y)"
      using jn True ky(1) by (simp add: computeNodeDerivElem3D_slot)
    also have "\<dots> = 0"
      using nodeDerivKnot3D_constant[of order knots interp ?ii ?jj ?kk "getValues dep vpn (conn e) uvec"
          vpn k "a k" y "xpts e" "conn e"] basis const e lt ky jn
      by (simp add: slot_decompose3)
    finally show ?thesis .
  qed
  show ?thesis
    unfolding computeNodeDeriv3D_sum_div[OF len]
    using sample True by (simp add: slot_sum_const[where v = 0] cong: map_cong)
next
  case False
  then show ?thesis
    unfolding computeNodeDeriv3D_sum_div[OF len] by (simp add: slot_sum_def)
qed

text \<open>
  Two one-node elements that share node 0: the derivative there is the mean of the
  two samples.
\<close>

lemma computeNodeDeriv3D_average_witness:
  "computeNodeDeriv3D (\<lambda>_. []) 1 1 [0] (\<lambda>_. ([1], [0], [0], [0])) (\<lambda>_. [0]) (\<lambda>_. [0, 0, 0])
     zeroEntries (computeLocalWeights (\<lambda>_. []) (\<lambda>_. [0]) 2 None) 2 None 0 0 =
   (\<Sum>e\<leftarrow>elementList 2 None.
      slot_sum (3 * 1) [0] (computeNodeDerivElem3D 1 1 [0] (\<lambda>_. ([1], [0], [0], [0])) [0, 0, 0]
        (getValues (\<lambda>_. []) 1 [0] zeroEntries) (replicate (1 * 1 * 1) 1) [0]) 0 0)
   / (\<Sum>e\<leftarrow>elementList 2 None. real (count (mset [0 :: int]) (int 0)))"
  using computeNodeDeriv3D_average[of 2 None "\<lambda>_. [0]" 1 "\<lambda>_. []" 1 "[0]" "\<lambda>_. ([1], [0], [0], [0])"
      "\<lambda>_. [0, 0, 0]" zeroEntries 0 0]
  by (simp add: elementList_def)

text \<open>
  An element whose map is mirrored in \<open>x\<close> (determinant \<open>-1\<close>) still contributes
  its gradient: for the field \<open>1 + x + y + z\<close> the derivative at node 0 is 1.
\<close>

lemma computeNodeDeriv3D_affine_exact_witness:
  "snd (snd (computeJacobianTrans3D [0, 0, 0, -1, 0, 0, 0, 1, 0, -1, 1, 0, 0, 0, 1, -1, 0, 1, 0, 1, 1, -1, 1, 1]
       [-1, 1, 0, 0, 0, 0, 0, 0] [-1, 0, 1, 0, 0, 0, 0, 0] [-1, 0, 0, 0, 1, 0, 0, 0] 8)) = -1 \<and>
   computeNodeDeriv3D (\<lambda>_. []) 1 2 [-1, 1]
     (\<lambda>_. (replicate 8 0, [-1, 1, 0, 0, 0, 0, 0, 0], [-1, 0, 1, 0, 0, 0, 0, 0], [-1, 0, 0, 0, 1, 0, 0, 0]))
     (\<lambda>_. [0, 1, 2, 3, 4, 5, 6, 7])
     (\<lambda>_. [0, 0, 0, -1, 0, 0, 0, 1, 0, -1, 1, 0, 0, 0, 1, -1, 0, 1, 0, 1, 1, -1, 1, 1])
     (\<lambda>m c. [1, 0, 2, 1, 2, 1, 3, 2] ! m)
     (computeLocalWeights (\<lambda>_. []) (\<lambda>_. [0, 1, 2, 3, 4, 5, 6, 7]) 1 None) 1 None 0 (3 * 0 + 0) = 1"
proof
  show "snd (snd (computeJacobianTrans3D [0, 0, 0, -1, 0, 0, 0, 1, 0, -1, 1, 0, 0, 0, 1, -1, 0, 1, 0, 1, 1, -1, 1, 1]
       [-1, 1, 0, 0, 0, 0, 0, 0] [-1, 0, 1, 0, 0, 0, 0, 0] [-1, 0, 0, 0, 1, 0, 0, 0] 8)) = -1"
    by (simp add: computeJacobianTrans3D_def jacobian3d_def strided_dot_def Let_def upt_rec)
  show "computeNodeDeriv3D (\<lambda>_. []) 1 2 [-1, 1]
     (\<lambda>_. (replicate 8 0, [-1, 1, 0, 0, 0, 0, 0, 0], [-1, 0, 1, 0, 0, 0, 0, 0], [-1, 0, 0, 0, 1, 0, 0, 0]))
     (\<lambda>_. [0, 1, 2, 3, 4, 5, 6, 7])
     (\<lambda>_. [0, 0, 0, -1, 0, 0, 0, 1, 0, -1, 1, 0, 0, 0, 1, -1, 0, 1, 0, 1, 1, -1, 1, 1])
     (\<lambda>m c. [1, 0, 2, 1, 2, 1, 3, 2] ! m)
     (computeLocalWeights (\<lambda>_. []) (\<lambda>_. [0, 1, 2, 3, 4, 5, 6, 7]) 1 None) 1 None 0 (3 * 0 + 0) = 1"
    apply (rule computeNodeDeriv3D_affine_exact[where a = "\<lambda>_. 1" and g = "\<lambda>_ _. 1"])
    apply (simp_all add: elementList_def knot_basis_ok3D_def knot_nondegenerate3D_def affine_nodal_def
        computeJacobianTrans3D_def jacobian3d_def strided_dot_def getValues_def getValue_def Let_def
        upt_rec All_less_Suc eval_nat_numeral)
    done
qed

lemma computeNodeDeriv3D_constant_zero_witness:
  "computeNodeDeriv3D (\<lambda>_. []) 1 2 [-1, 1]
     (\<lambda>_. (replicate 8 0, [-1, 1, 0, 0, 0, 0, 0, 0], [-1, 0, 1, 0, 0, 0, 0, 0], [-1, 0, 0, 0, 1, 0, 0, 0]))
     (\<lambda>_. [0, 1, 2, 3, 4, 5, 6, 7]) (\<lambda>_. replicate 24 0) (\<lambda>m c. 5)
     (computeLocalWeights (\<lambda>_. []) (\<lambda>_. [0, 1, 2, 3, 4, 5, 6, 7]) 1 None) 1 None 3 2 = 0"
  apply (rule computeNodeDeriv3D_constant_zero[where a = "\<lambda>_. 5"])
    apply (simp_all add: elementList_def knot_basis_ok3D_def getValues_def getValue_def
      upt_rec All_less_Suc eval_nat_numeral)
  done

end
