(* ===== verification/KSConstraint.thy ===== *)
theory KSConstraint
  imports NodeDeriv Enrichment
begin

text \<open>
  The KS-aggregate stress constraint \<open>TMRStressConstraint\<close> (\<open>TMRGeometry.c\<close>
  lines 3537--4470), component C6(c) of the spec.

  \<^item> State: the record \<open>stress_constraint\<close> holds the mesh order, the KS weight, the
    nodal weights built by the constructor, the copy of the state vector, the nodal
    derivatives, and the two numbers \<open>ks_max_fail\<close> and \<open>ks_fail_sum\<close> that
    \<open>evalConstraint\<close> leaves for \<open>evalConDeriv\<close>.  The constructor does not
    initialise the last two; they are \<open>None\<close> until \<open>evalConstraint\<close> runs.
  \<^item> The collaborators are fields of \<open>ks_mesh\<close>: the connectivity and node locations
    of the coarse and of the order-elevated mesh, the Lagrange bases of both forests,
    the Gauss rule (\<open>FElibrary::getGaussPtsWts\<close>), the failure criterion of the
    constitutive object and the patch reconstruction \<open>computeElemRecon3D\<close>.
  \<^item> \<open>evalStrain\<close> and \<open>addStrainDeriv\<close> are translated entry by entry, split at the
    code's blocks (\<open>localDispGrad\<close> accumulates \<open>Ud\<close>, \<open>strainFromGrad\<close> forms
    \<open>Ux\<close> and the strain).  For an order other than 2 and 3 both read enrichment
    arrays that were never written; the model returns \<open>None\<close> there.
  \<^item> \<open>evalConstraint\<close> samples (weighted \<open>detJ\<close>, failure value) at every Gauss point
    of every element, takes the running maximum from \<open>-1e20\<close>, the shifted sum and
    returns \<open>ks_max_fail + log(ks_fail_sum)/ks_weight\<close>; \<open>ksWeight\<close> is the weight
    \<open>kw\<close> with which \<open>evalConDeriv\<close> scales each sample's sensitivity.

  The lemmas show that the shift by the maximum does not change the value, bound the
  value between every sample and the maximum plus \<open>ln(volume)/k\<close>, prove the limit
  \<open>k \<rightarrow> \<infinity>\<close>, that the weights \<open>kw\<close> are the exact partial derivatives of the
  value and sum to one, and that \<open>addStrainDeriv\<close> is the transpose of the linear map
  that \<open>evalStrain\<close> applies to the element and enrichment variables.
\<close>

subsection \<open>State and collaborators\<close>

record stress_constraint =
  sc_order :: nat
  ks_weight :: real
  sc_weights :: bvec
  sc_uvec :: bvec
  sc_uderiv :: bvec
  ks_max_fail :: "real option"
  ks_fail_sum :: "real option"

record ks_mesh =
  km_dep :: deptab
  km_vpn :: nat
  km_knots :: "real list"
  km_interp :: interp3
  km_interp_ref :: interp3
  km_conn :: "nat \<Rightarrow> int list"
  km_nelems :: nat
  km_xpts :: "nat \<Rightarrow> real list"
  km_xref :: "nat \<Rightarrow> real list"
  km_gauss :: "nat \<Rightarrow> real list \<times> real list"
  km_failure :: "nat \<Rightarrow> pt3 \<Rightarrow> real list \<Rightarrow> real"
  km_recon :: "real list \<Rightarrow> real list \<Rightarrow> real list \<Rightarrow> real list"

definition TMRStressConstraint :: "ks_mesh \<Rightarrow> nat \<Rightarrow> real \<Rightarrow> stress_constraint" where
  "TMRStressConstraint M order k =
     \<lparr>sc_order = order, ks_weight = k,
      sc_weights = computeLocalWeights (km_dep M) (km_conn M) (km_nelems M) None,
      sc_uvec = zeroEntries, sc_uderiv = zeroEntries, ks_max_fail = None, ks_fail_sum = None\<rparr>"

subsection \<open>Strain at a point and its adjoint\<close>

definition localDispGrad ::
  "nat \<Rightarrow> nat \<Rightarrow> real list \<Rightarrow> real list \<Rightarrow> real list \<Rightarrow> real list \<Rightarrow> real list
   \<Rightarrow> real list \<Rightarrow> real list \<Rightarrow> real list \<Rightarrow> real list" where
  "localDispGrad ulen nenrich vars ubar Na Nb Nc Nar Nbr Ncr =
     [strided_dot vars 3 0 Na ulen + strided_dot ubar 3 0 Nar nenrich,
      strided_dot vars 3 0 Nb ulen + strided_dot ubar 3 0 Nbr nenrich,
      strided_dot vars 3 0 Nc ulen + strided_dot ubar 3 0 Ncr nenrich,
      strided_dot vars 3 1 Na ulen + strided_dot ubar 3 1 Nar nenrich,
      strided_dot vars 3 1 Nb ulen + strided_dot ubar 3 1 Nbr nenrich,
      strided_dot vars 3 1 Nc ulen + strided_dot ubar 3 1 Ncr nenrich,
      strided_dot vars 3 2 Na ulen + strided_dot ubar 3 2 Nar nenrich,
      strided_dot vars 3 2 Nb ulen + strided_dot ubar 3 2 Nbr nenrich,
      strided_dot vars 3 2 Nc ulen + strided_dot ubar 3 2 Ncr nenrich]"

definition strainFromGrad :: "real list \<Rightarrow> real list \<Rightarrow> real list" where
  "strainFromGrad Ud J =
     (let Ux = [Ud ! 0 * J ! 0 + Ud ! 1 * J ! 3 + Ud ! 2 * J ! 6,
                Ud ! 0 * J ! 1 + Ud ! 1 * J ! 4 + Ud ! 2 * J ! 7,
                Ud ! 0 * J ! 2 + Ud ! 1 * J ! 5 + Ud ! 2 * J ! 8,
                Ud ! 3 * J ! 0 + Ud ! 4 * J ! 3 + Ud ! 5 * J ! 6,
                Ud ! 3 * J ! 1 + Ud ! 4 * J ! 4 + Ud ! 5 * J ! 7,
                Ud ! 3 * J ! 2 + Ud ! 4 * J ! 5 + Ud ! 5 * J ! 8,
                Ud ! 6 * J ! 0 + Ud ! 7 * J ! 3 + Ud ! 8 * J ! 6,
                Ud ! 6 * J ! 1 + Ud ! 7 * J ! 4 + Ud ! 8 * J ! 7,
                Ud ! 6 * J ! 2 + Ud ! 7 * J ! 5 + Ud ! 8 * J ! 8]
      in [Ux ! 0, Ux ! 4, Ux ! 8, Ux ! 5 + Ux ! 7, Ux ! 2 + Ux ! 6, Ux ! 1 + Ux ! 3])"

definition evalStrain ::
  "nat \<Rightarrow> interp3 \<Rightarrow> interp3 \<Rightarrow> pt3 \<Rightarrow> real list \<Rightarrow> real list \<Rightarrow> real list
   \<Rightarrow> (real \<times> real list \<times> real list) option" where
  "evalStrain order interp interp_ref pt Xpts vars ubar =
     (case enrichDeriv3D order pt of None \<Rightarrow> None | Some (Nr, Nar, Nbr, Ncr) \<Rightarrow>
      let (N, Na, Nb, Nc) = interp pt;
          ulen = order * order * order;
          (N', Na', Nb', Nc') = interp_ref pt;
          xlen = (order + 1) * (order + 1) * (order + 1);
          Xd = [strided_dot Xpts 3 0 Na' xlen, strided_dot Xpts 3 0 Nb' xlen, strided_dot Xpts 3 0 Nc' xlen,
                strided_dot Xpts 3 1 Na' xlen, strided_dot Xpts 3 1 Nb' xlen, strided_dot Xpts 3 1 Nc' xlen,
                strided_dot Xpts 3 2 Na' xlen, strided_dot Xpts 3 2 Nb' xlen, strided_dot Xpts 3 2 Nc' xlen];
          (J, detJ) = jacobian3d Xd;
          nenrich = getNum3dEnrich (int order)
      in Some (detJ, J, strainFromGrad (localDispGrad ulen nenrich vars ubar Na Nb Nc Nar Nbr Ncr) J))"

definition strainAdjoint :: "real list \<Rightarrow> real \<Rightarrow> real list \<Rightarrow> real \<Rightarrow> real \<Rightarrow> real \<Rightarrow> real list" where
  "strainAdjoint J alpha dfde na nb nc =
     (let Dx = na * J ! 0 + nb * J ! 3 + nc * J ! 6;
          Dy = na * J ! 1 + nb * J ! 4 + nc * J ! 7;
          Dz = na * J ! 2 + nb * J ! 5 + nc * J ! 8
      in [alpha * (dfde ! 0 * Dx + dfde ! 4 * Dz + dfde ! 5 * Dy),
          alpha * (dfde ! 1 * Dy + dfde ! 3 * Dz + dfde ! 5 * Dx),
          alpha * (dfde ! 2 * Dz + dfde ! 3 * Dy + dfde ! 4 * Dx)])"

definition add_prefix :: "real list \<Rightarrow> real list \<Rightarrow> real list" where
  "add_prefix xs ys = map2 (+) xs ys @ drop (length ys) xs"

definition addStrainDeriv ::
  "nat \<Rightarrow> interp3 \<Rightarrow> pt3 \<Rightarrow> real list \<Rightarrow> real \<Rightarrow> real list \<Rightarrow> real list \<Rightarrow> real list
   \<Rightarrow> (real list \<times> real list) option" where
  "addStrainDeriv order interp pt J alpha dfde dfdu dfdubar =
     (case enrichDeriv3D order pt of None \<Rightarrow> None | Some (Nr, Nar, Nbr, Ncr) \<Rightarrow>
      let (N, Na, Nb, Nc) = interp pt;
          nenrich = getNum3dEnrich (int order);
          len = order * order * order
      in Some (add_prefix dfdu (concat (map (\<lambda>i. strainAdjoint J alpha dfde (Na ! i) (Nb ! i) (Nc ! i)) [0..<len])),
               add_prefix dfdubar (concat (map (\<lambda>i. strainAdjoint J alpha dfde (Nar ! i) (Nbr ! i) (Ncr ! i))
                                         [0..<nenrich]))))"

subsection \<open>The constraint value\<close>

definition elemQuadSamples :: "ks_mesh \<Rightarrow> stress_constraint \<Rightarrow> nat \<Rightarrow> (real \<times> real) list option" where
  "elemQuadSamples M st i =
     (let order = sc_order st;
          nodes = km_conn M i;
          vars = getValues (km_dep M) (km_vpn M) nodes (sc_uvec st);
          varderiv = getValues (km_dep M) (3 * km_vpn M) nodes (sc_uderiv st);
          Xr = km_xref M i;
          ubar = km_recon M Xr vars varderiv;
          (g, w) = km_gauss M (order + 1);
          nq = order + 1
      in those [(case evalStrain order (km_interp M) (km_interp_ref M) (g ! ii, g ! jj, g ! kk) Xr vars ubar of
                   None \<Rightarrow> None
                 | Some (detJ, J, e) \<Rightarrow>
                     Some (detJ * (w ! ii * w ! jj * w ! kk), km_failure M i (g ! ii, g ! jj, g ! kk) e)).
                kk \<leftarrow> [0..<nq], jj \<leftarrow> [0..<nq], ii \<leftarrow> [0..<nq]])"

definition ks_max_fail_init :: real where
  "ks_max_fail_init = - (10 ^ 20)"

definition ksMax :: "(real \<times> real) list \<Rightarrow> real" where
  "ksMax smp = foldl (\<lambda>m (d, f). if m < f then f else m) ks_max_fail_init smp"

definition ksSum :: "real \<Rightarrow> real \<Rightarrow> (real \<times> real) list \<Rightarrow> real" where
  "ksSum k mx smp = foldl (\<lambda>s (d, f). s + d * exp (k * (f - mx))) 0 smp"

definition ksValue :: "real \<Rightarrow> real \<Rightarrow> real \<Rightarrow> real" where
  "ksValue k mx s = mx + ln s / k"

definition ksAggregate :: "real \<Rightarrow> (real \<times> real) list \<Rightarrow> real" where
  "ksAggregate k smp = (let mx = ksMax smp in ksValue k mx (ksSum k mx smp))"

definition ksPrepare :: "ks_mesh \<Rightarrow> stress_constraint \<Rightarrow> bvec \<Rightarrow> stress_constraint" where
  "ksPrepare M st u =
     st\<lparr>sc_uvec := u,
        sc_uderiv := computeNodeDeriv3D (km_dep M) (km_vpn M) (sc_order st) (km_knots M) (km_interp M)
                       (km_conn M) (km_xpts M) u (sc_weights st) (km_nelems M) None\<rparr>"

definition ksSamples :: "ks_mesh \<Rightarrow> stress_constraint \<Rightarrow> (real \<times> real) list option" where
  "ksSamples M st = map_option concat (those (map (elemQuadSamples M st) [0..<km_nelems M]))"

definition evalConstraint :: "ks_mesh \<Rightarrow> stress_constraint \<Rightarrow> bvec \<Rightarrow> (real \<times> stress_constraint) option" where
  "evalConstraint M st u =
     (let st1 = ksPrepare M st u
      in case ksSamples M st1 of
           None \<Rightarrow> None
         | Some smp \<Rightarrow>
             let k = ks_weight st; mx = ksMax smp; s = ksSum k mx smp
             in Some (ksValue k mx s, st1\<lparr>ks_max_fail := Some mx, ks_fail_sum := Some s\<rparr>))"

subsection \<open>Sensitivity weights\<close>

definition ksWeight :: "real \<Rightarrow> real \<Rightarrow> real \<Rightarrow> real \<Rightarrow> real \<Rightarrow> real" where
  "ksWeight k mx s d f = d * exp (k * (f - mx)) / s"

definition ksDerivWeights :: "stress_constraint \<Rightarrow> (real \<times> real) list \<Rightarrow> real list option" where
  "ksDerivWeights st smp =
     (case (ks_max_fail st, ks_fail_sum st) of
        (Some mx, Some s) \<Rightarrow> Some (map (\<lambda>(d, f). ksWeight (ks_weight st) mx s d f) smp)
      | _ \<Rightarrow> None)"

subsection \<open>Proof vocabulary\<close>

text \<open>
  \<open>strainGradAdjoint J dfde\<close> holds the coefficient of each entry of \<open>Ud\<close> in
  the pairing of \<open>dfde\<close> with the strain.
\<close>

definition strainGradAdjoint :: "real list \<Rightarrow> real list \<Rightarrow> real list" where
  "strainGradAdjoint J dfde =
     [dfde ! 0 * J ! 0 + dfde ! 5 * J ! 1 + dfde ! 4 * J ! 2,
      dfde ! 0 * J ! 3 + dfde ! 5 * J ! 4 + dfde ! 4 * J ! 5,
      dfde ! 0 * J ! 6 + dfde ! 5 * J ! 7 + dfde ! 4 * J ! 8,
      dfde ! 5 * J ! 0 + dfde ! 1 * J ! 1 + dfde ! 3 * J ! 2,
      dfde ! 5 * J ! 3 + dfde ! 1 * J ! 4 + dfde ! 3 * J ! 5,
      dfde ! 5 * J ! 6 + dfde ! 1 * J ! 7 + dfde ! 3 * J ! 8,
      dfde ! 4 * J ! 0 + dfde ! 3 * J ! 1 + dfde ! 2 * J ! 2,
      dfde ! 4 * J ! 3 + dfde ! 3 * J ! 4 + dfde ! 2 * J ! 5,
      dfde ! 4 * J ! 6 + dfde ! 3 * J ! 7 + dfde ! 2 * J ! 8]"

subsection \<open>Aggregation lemmas\<close>

lemma ksSum_eq: "ksSum k mx smp = (\<Sum>(d, f)\<leftarrow>smp. d * exp (k * (f - mx)))"
proof -
  have "foldl (\<lambda>s (d, f). s + d * exp (k * (f - mx))) a smp = a + (\<Sum>(d, f)\<leftarrow>smp. d * exp (k * (f - mx)))"
    for a by (induction smp arbitrary: a) (auto simp: algebra_simps)
  then show ?thesis by (simp add: ksSum_def)
qed

lemma ksMax_eq: "ksMax smp = Max (insert ks_max_fail_init (snd ` set smp))"
proof -
  have "(\<lambda>m (d :: real, f). if m < f then f else m) = (\<lambda>m x. if m < snd x then snd x else (m :: real))"
    by (auto simp: fun_eq_iff)
  then show ?thesis by (simp add: ksMax_def foldl_max_eq)
qed

lemma ksSum_shift:
  "ksSum k mx smp = exp (- (k * mx)) * (\<Sum>(d, f)\<leftarrow>smp. d * exp (k * f))"
  unfolding ksSum_eq sum_list_map_mult_const[symmetric]
  by (intro arg_cong[where f = sum_list] map_cong) (auto simp: right_diff_distrib exp_diff exp_minus field_simps)

lemma ks_terms_pos:
  fixes smp :: "(real \<times> real) list"
  assumes "\<forall>(d, f) \<in> set smp. 0 < d" "smp \<noteq> []"
  shows "0 < (\<Sum>(d, f)\<leftarrow>smp. d * exp (k * f))"
  by (rule sum_list_pos) (use assms in auto)

lemma ksValue_shift:
  fixes smp :: "(real \<times> real) list"
  assumes "k \<noteq> 0" "\<forall>(d, f) \<in> set smp. 0 < d" "smp \<noteq> []"
  shows "ksValue k mx (ksSum k mx smp) = ln (\<Sum>(d, f)\<leftarrow>smp. d * exp (k * f)) / k"
  using ks_terms_pos[OF assms(2,3), of k] assms(1)
  by (simp add: ksValue_def ksSum_shift ln_mult field_simps)

lemma ksMax_ge:
  "(d, f) \<in> set smp \<Longrightarrow> f \<le> ksMax smp"
  unfolding ksMax_eq by (rule Max_ge) (auto intro: rev_image_eqI)

lemma ksMax_attained:
  assumes "\<exists>(d, f) \<in> set smp. ks_max_fail_init \<le> f"
  shows "\<exists>d. (d, ksMax smp) \<in> set smp"
proof -
  obtain a b where ab: "(a, b) \<in> set smp" "ks_max_fail_init \<le> b" using assms by auto
  have ne: "snd ` set smp \<noteq> {}" using ab by auto
  have "b \<le> Max (snd ` set smp)"
    using ab by (intro Max_ge) (auto intro: rev_image_eqI)
  then have "ksMax smp = Max (snd ` set smp)"
    using ne ab(2) by (simp add: ksMax_eq Max_insert max_def)
  then have "ksMax smp \<in> snd ` set smp"
    using ne by simp
  then show ?thesis by force
qed

lemma ksAggregate_shift:
  fixes smp :: "(real \<times> real) list"
  assumes "k \<noteq> 0" "\<forall>(d, f) \<in> set smp. 0 < d" "smp \<noteq> []"
  shows "ksAggregate k smp = ln (\<Sum>(d, f)\<leftarrow>smp. d * exp (k * f)) / k"
  using ksValue_shift[OF assms] by (simp add: ksAggregate_def)

lemma ksAggregate_lower:
  fixes smp :: "(real \<times> real) list"
  assumes "0 < k" "\<forall>(d, f) \<in> set smp. 0 < d" "(d, f) \<in> set smp"
  shows "f + ln d / k \<le> ksAggregate k smp"
proof -
  have ne: "smp \<noteq> []" using assms(3) by auto
  have d: "0 < d" using assms(2,3) by auto
  have nn: "\<And>x. x \<in> set smp \<Longrightarrow> 0 \<le> (\<lambda>(d, f). d * exp (k * f)) x"
    using assms(2) by (fastforce intro: less_imp_le)
  have "d * exp (k * f) \<le> (\<Sum>(d, f)\<leftarrow>smp. d * exp (k * f))"
    using sum_list_nonneg_mono[of smp "\<lambda>(d, f). d * exp (k * f)" "(d, f)", OF nn assms(3)] by simp
  then have "ln (d * exp (k * f)) \<le> ln (\<Sum>(d, f)\<leftarrow>smp. d * exp (k * f))"
    using d by (simp add: ln_le_cancel_iff ks_terms_pos[OF assms(2) ne])
  then have "k * f + ln d \<le> ln (\<Sum>(d, f)\<leftarrow>smp. d * exp (k * f))"
    using d by (simp add: ln_mult)
  then show ?thesis
    using assms(1) ksAggregate_shift[of k smp] assms(2) ne by (simp add: field_simps)
qed

lemma ksAggregate_upper:
  fixes smp :: "(real \<times> real) list"
  assumes "0 < k" "\<forall>(d, f) \<in> set smp. 0 < d" "smp \<noteq> []"
  shows "ksAggregate k smp \<le> ksMax smp + ln (\<Sum>(d, f)\<leftarrow>smp. d) / k"
proof -
  let ?M = "ksMax smp"
  have "(\<Sum>(d, f)\<leftarrow>smp. d * exp (k * f)) \<le> (\<Sum>(d, f)\<leftarrow>smp. exp (k * ?M) * d)"
    using assms(1,2) ksMax_ge[of _ _ smp]
    by (intro sum_list_mono) (auto simp: mult.commute intro!: mult_left_mono)
  also have "\<dots> = exp (k * ?M) * (\<Sum>(d, f)\<leftarrow>smp. d)"
  proof -
    have "(\<Sum>(d, f)\<leftarrow>xs. c * d) = c * (\<Sum>(d, f)\<leftarrow>xs. d)" for c :: real and xs :: "(real \<times> real) list"
      by (induction xs) (auto simp: algebra_simps)
    then show ?thesis .
  qed
  finally have le: "(\<Sum>(d, f)\<leftarrow>smp. d * exp (k * f)) \<le> exp (k * ?M) * (\<Sum>(d, f)\<leftarrow>smp. d)" .
  have D: "0 < (\<Sum>(d, f)\<leftarrow>smp. d)"
    by (rule sum_list_pos) (use assms in auto)
  have "ln (\<Sum>(d, f)\<leftarrow>smp. d * exp (k * f)) \<le> ln (exp (k * ?M) * (\<Sum>(d, f)\<leftarrow>smp. d))"
    using le ks_terms_pos[OF assms(2,3), of k] D by (subst ln_le_cancel_iff) auto
  also have "\<dots> = k * ?M + ln (\<Sum>(d, f)\<leftarrow>smp. d)"
    using D by (simp add: ln_mult)
  finally have "ln (\<Sum>(d, f)\<leftarrow>smp. d * exp (k * f)) \<le> k * ?M + ln (\<Sum>(d, f)\<leftarrow>smp. d)" .
  then show ?thesis
    using assms(1) ksAggregate_shift[OF _ assms(2,3), of k] by (simp add: field_simps)
qed

lemma tendsto_plus_const_div:
  "((\<lambda>k::real. M + c / k) \<longlongrightarrow> M) at_top"
proof -
  have "((\<lambda>k::real. c / k) \<longlongrightarrow> 0) at_top"
    by (rule tendsto_divide_0[OF tendsto_const filterlim_at_top_imp_at_infinity[OF filterlim_ident]])
  then show ?thesis using tendsto_add[OF tendsto_const, of _ 0 at_top M] by simp
qed

lemma sum_list_update_eq:
  "j < length xs \<Longrightarrow> sum_list (xs[j := x]) = sum_list xs - xs ! j + (x :: 'a :: ab_group_add)"
  by (induction xs arbitrary: j) (auto split: nat.splits simp: algebra_simps)

lemma ksWeight_sum:
  assumes "ksSum k mx smp \<noteq> 0"
  shows "(\<Sum>(d, f)\<leftarrow>smp. ksWeight k mx (ksSum k mx smp) d f) = 1"
proof -
  have "(\<Sum>(d, f)\<leftarrow>xs. d * exp (k * (f - mx)) / c) = (\<Sum>(d, f)\<leftarrow>xs. d * exp (k * (f - mx))) / c"
    for xs :: "(real \<times> real) list" and c
    by (induction xs) (auto simp: add_divide_distrib)
  then show ?thesis
    using assms by (simp add: ksWeight_def ksSum_eq[symmetric])
qed

subsection \<open>Adjoint lemmas\<close>

lemma add_prefix_zero:
  "length ys = n \<Longrightarrow> add_prefix (replicate n 0) ys = ys"
  by (rule nth_equalityI) (auto simp: add_prefix_def)

lemma length_strainAdjoint [simp]: "length (strainAdjoint J alpha dfde na nb nc) = 3"
  by (simp add: strainAdjoint_def Let_def)

lemma nth_concat_strainAdjoint:
  assumes "i < n"
  shows "concat (map (\<lambda>i. strainAdjoint J alpha dfde (A ! i) (B ! i) (C ! i)) [0..<n]) ! (3 * i) =
           strainAdjoint J alpha dfde (A ! i) (B ! i) (C ! i) ! 0"
    "concat (map (\<lambda>i. strainAdjoint J alpha dfde (A ! i) (B ! i) (C ! i)) [0..<n]) ! Suc (3 * i) =
           strainAdjoint J alpha dfde (A ! i) (B ! i) (C ! i) ! 1"
    "concat (map (\<lambda>i. strainAdjoint J alpha dfde (A ! i) (B ! i) (C ! i)) [0..<n]) ! Suc (Suc (3 * i)) =
           strainAdjoint J alpha dfde (A ! i) (B ! i) (C ! i) ! 2"
  using assms
    nth_concat_blocks[of "[0..<n]" "\<lambda>i. strainAdjoint J alpha dfde (A ! i) (B ! i) (C ! i)" 3 i 0]
    nth_concat_blocks[of "[0..<n]" "\<lambda>i. strainAdjoint J alpha dfde (A ! i) (B ! i) (C ! i)" 3 i 1]
    nth_concat_blocks[of "[0..<n]" "\<lambda>i. strainAdjoint J alpha dfde (A ! i) (B ! i) (C ! i)" 3 i 2]
  by simp_all

lemma strainFromGrad_adjoint:
  "(\<Sum>q\<leftarrow>[0..<6]. dfde ! q * strainFromGrad Ud J ! q) =
   (\<Sum>m\<leftarrow>[0..<9]. Ud ! m * strainGradAdjoint J dfde ! m)"
  by (simp add: strainFromGrad_def strainGradAdjoint_def Let_def upt_rec eval_nat_numeral algebra_simps)

lemma strainAdjoint_eq:
  "strainAdjoint J alpha dfde na nb nc ! 0 =
     alpha * (na * strainGradAdjoint J dfde ! 0 + nb * strainGradAdjoint J dfde ! 1 + nc * strainGradAdjoint J dfde ! 2)"
  "strainAdjoint J alpha dfde na nb nc ! Suc 0 =
     alpha * (na * strainGradAdjoint J dfde ! 3 + nb * strainGradAdjoint J dfde ! 4 + nc * strainGradAdjoint J dfde ! 5)"
  "strainAdjoint J alpha dfde na nb nc ! 2 =
     alpha * (na * strainGradAdjoint J dfde ! 6 + nb * strainGradAdjoint J dfde ! 7 + nc * strainGradAdjoint J dfde ! 8)"
  by (simp_all add: strainAdjoint_def strainGradAdjoint_def Let_def algebra_simps)

lemma localDispGrad_pairs:
  assumes "Ud = localDispGrad L R v u Na Nb Nc Nar Nbr Ncr"
  shows "Ud ! 0 * H ! 0 + Ud ! 1 * H ! 1 + Ud ! 2 * H ! 2 =
           (\<Sum>i\<leftarrow>[0..<L]. v ! (3 * i) * (Na ! i * H ! 0 + Nb ! i * H ! 1 + Nc ! i * H ! 2))
         + (\<Sum>i\<leftarrow>[0..<R]. u ! (3 * i) * (Nar ! i * H ! 0 + Nbr ! i * H ! 1 + Ncr ! i * H ! 2))"
    "Ud ! 3 * H ! 3 + Ud ! 4 * H ! 4 + Ud ! 5 * H ! 5 =
           (\<Sum>i\<leftarrow>[0..<L]. v ! (3 * i + 1) * (Na ! i * H ! 3 + Nb ! i * H ! 4 + Nc ! i * H ! 5))
         + (\<Sum>i\<leftarrow>[0..<R]. u ! (3 * i + 1) * (Nar ! i * H ! 3 + Nbr ! i * H ! 4 + Ncr ! i * H ! 5))"
    "Ud ! 6 * H ! 6 + Ud ! 7 * H ! 7 + Ud ! 8 * H ! 8 =
           (\<Sum>i\<leftarrow>[0..<L]. v ! (3 * i + 2) * (Na ! i * H ! 6 + Nb ! i * H ! 7 + Nc ! i * H ! 8))
         + (\<Sum>i\<leftarrow>[0..<R]. u ! (3 * i + 2) * (Nar ! i * H ! 6 + Nbr ! i * H ! 7 + Ncr ! i * H ! 8))"
proof -
  have g: "(strided_dot v 3 a Na L + strided_dot u 3 a Nar R) * x + (strided_dot v 3 a Nb L + strided_dot u 3 a Nbr R) * y
      + (strided_dot v 3 a Nc L + strided_dot u 3 a Ncr R) * z =
      (\<Sum>i\<leftarrow>[0..<L]. v ! (3 * i + a) * (Na ! i * x + Nb ! i * y + Nc ! i * z))
    + (\<Sum>i\<leftarrow>[0..<R]. u ! (3 * i + a) * (Nar ! i * x + Nbr ! i * y + Ncr ! i * z))" for a x y z
    by (simp only: comb3_split strided_dot_comb3)
  show "Ud ! 0 * H ! 0 + Ud ! 1 * H ! 1 + Ud ! 2 * H ! 2 =
           (\<Sum>i\<leftarrow>[0..<L]. v ! (3 * i) * (Na ! i * H ! 0 + Nb ! i * H ! 1 + Nc ! i * H ! 2))
         + (\<Sum>i\<leftarrow>[0..<R]. u ! (3 * i) * (Nar ! i * H ! 0 + Nbr ! i * H ! 1 + Ncr ! i * H ! 2))"
    using g[of 0 "H ! 0" "H ! 1" "H ! 2"] by (simp add: assms localDispGrad_def)
  show "Ud ! 3 * H ! 3 + Ud ! 4 * H ! 4 + Ud ! 5 * H ! 5 =
           (\<Sum>i\<leftarrow>[0..<L]. v ! (3 * i + 1) * (Na ! i * H ! 3 + Nb ! i * H ! 4 + Nc ! i * H ! 5))
         + (\<Sum>i\<leftarrow>[0..<R]. u ! (3 * i + 1) * (Nar ! i * H ! 3 + Nbr ! i * H ! 4 + Ncr ! i * H ! 5))"
    using g[of 1 "H ! 3" "H ! 4" "H ! 5"] by (simp add: assms localDispGrad_def)
  show "Ud ! 6 * H ! 6 + Ud ! 7 * H ! 7 + Ud ! 8 * H ! 8 =
           (\<Sum>i\<leftarrow>[0..<L]. v ! (3 * i + 2) * (Na ! i * H ! 6 + Nb ! i * H ! 7 + Nc ! i * H ! 8))
         + (\<Sum>i\<leftarrow>[0..<R]. u ! (3 * i + 2) * (Nar ! i * H ! 6 + Nbr ! i * H ! 7 + Ncr ! i * H ! 8))"
    using g[of 2 "H ! 6" "H ! 7" "H ! 8"] by (simp add: assms localDispGrad_def)
qed

lemma ring_regroup6:
  fixes alpha :: real
  assumes "sn = alpha * (p0 + p1 + p2)" "se = alpha * (q0 + q1 + q2)"
    "u0 = p0 + q0" "u1 = p1 + q1" "u2 = p2 + q2"
  shows "sn + se = alpha * (u0 + u1 + u2)"
  using assms by (simp add: algebra_simps)

lemma sum_list_lin3:
  "(\<Sum>i\<leftarrow>xs. alpha * (f i + g i + h i)) =
   alpha * (sum_list (map f xs) + sum_list (map g xs) + sum_list (map h xs))"
  for alpha :: real
  by (induction xs) (simp_all add: algebra_simps)

lemma addStrainDeriv_blocks:
  assumes "strainAdjoint_list = (\<lambda>A B C n. concat (map (\<lambda>i. strainAdjoint J alpha dfde (A ! i) (B ! i) (C ! i)) [0..<n]))"
    "du = strainAdjoint_list A B C n"
  shows "(\<Sum>i\<leftarrow>[0..<n]. du ! (3 * i) * v ! (3 * i) + du ! (3 * i + 1) * v ! (3 * i + 1)
                          + du ! (3 * i + 2) * v ! (3 * i + 2)) =
         alpha * ((\<Sum>i\<leftarrow>[0..<n]. v ! (3 * i) * (A ! i * strainGradAdjoint J dfde ! 0
                     + B ! i * strainGradAdjoint J dfde ! 1 + C ! i * strainGradAdjoint J dfde ! 2))
                + (\<Sum>i\<leftarrow>[0..<n]. v ! (3 * i + 1) * (A ! i * strainGradAdjoint J dfde ! 3
                     + B ! i * strainGradAdjoint J dfde ! 4 + C ! i * strainGradAdjoint J dfde ! 5))
                + (\<Sum>i\<leftarrow>[0..<n]. v ! (3 * i + 2) * (A ! i * strainGradAdjoint J dfde ! 6
                     + B ! i * strainGradAdjoint J dfde ! 7 + C ! i * strainGradAdjoint J dfde ! 8)))"
proof -
  let ?H = "strainGradAdjoint J dfde"
  have "(\<Sum>i\<leftarrow>[0..<n]. du ! (3 * i) * v ! (3 * i) + du ! (3 * i + 1) * v ! (3 * i + 1)
                          + du ! (3 * i + 2) * v ! (3 * i + 2)) =
        (\<Sum>i\<leftarrow>[0..<n]. alpha * (v ! (3 * i) * (A ! i * ?H ! 0 + B ! i * ?H ! 1 + C ! i * ?H ! 2)
             + v ! (3 * i + 1) * (A ! i * ?H ! 3 + B ! i * ?H ! 4 + C ! i * ?H ! 5)
             + v ! (3 * i + 2) * (A ! i * ?H ! 6 + B ! i * ?H ! 7 + C ! i * ?H ! 8)))"
    using assms
    by (intro arg_cong[where f = sum_list] map_cong refl)
      (simp add: nth_concat_strainAdjoint strainAdjoint_eq, simp add: algebra_simps)
  then show ?thesis by (simp only: sum_list_lin3)
qed

subsection \<open>The constraint value as an aggregate\<close>

lemma elemQuadSamples_indep:
  "elemQuadSamples M (st\<lparr>ks_weight := k\<rparr>) = elemQuadSamples M st"
  "elemQuadSamples M (st\<lparr>ks_max_fail := a, ks_fail_sum := b\<rparr>) = elemQuadSamples M st"
  by (simp_all add: fun_eq_iff elemQuadSamples_def)

lemma evalConstraint_eq:
  "evalConstraint M st u =
     map_option (\<lambda>smp. (ksAggregate (ks_weight st) smp,
                         (ksPrepare M st u)\<lparr>ks_max_fail := Some (ksMax smp),
                            ks_fail_sum := Some (ksSum (ks_weight st) (ksMax smp) smp)\<rparr>))
       (ksSamples M (ksPrepare M st u))"
  by (simp add: evalConstraint_def ksAggregate_def Let_def split: option.split)

lemma those_None_iff: "those xs = None \<longleftrightarrow> None \<in> set xs"
  by (induction xs) (auto split: option.splits)

subsection \<open>Properties of the KS constraint\<close>

text \<open>C5. KS limit (section 8, invariant 5): for positive quadrature weights and a
  failure value at or above the initial maximum \<open>-1e20\<close>, the value that
  \<open>evalConstraint\<close> computes from its samples tends to the maximum failure value
  \<open>ks_max_fail\<close> as the KS weight grows.
\<close>

theorem ksAggregate_limit:
  fixes smp :: "(real \<times> real) list"
  assumes "\<forall>(d, f) \<in> set smp. 0 < d" "\<exists>(d, f) \<in> set smp. ks_max_fail_init \<le> f"
  shows "((\<lambda>k. ksAggregate k smp) \<longlongrightarrow> ksMax smp) at_top"
proof -
  obtain dj where j: "(dj, ksMax smp) \<in> set smp" using ksMax_attained[OF assms(2)] by blast
  have ne: "smp \<noteq> []" using j by auto
  have lo: "\<forall>\<^sub>F k in at_top. ksMax smp + ln dj / k \<le> ksAggregate k smp"
    using eventually_gt_at_top[of 0] by eventually_elim (use ksAggregate_lower[OF _ assms(1) j] in auto)
  have hi: "\<forall>\<^sub>F k in at_top. ksAggregate k smp \<le> ksMax smp + ln (\<Sum>(d, f)\<leftarrow>smp. d) / k"
    using eventually_gt_at_top[of 0] by eventually_elim (use ksAggregate_upper[OF _ assms(1) ne] in auto)
  show ?thesis
    by (rule tendsto_sandwich[OF lo hi tendsto_plus_const_div tendsto_plus_const_div])
qed

lemma ksAggregate_limit_witness:
  "((\<lambda>k. ksAggregate k [(1, 0), (2, 1)]) \<longlongrightarrow> ksMax [(1, 0), (2 :: real, 1 :: real)]) at_top"
  by (rule ksAggregate_limit) (auto simp: ks_max_fail_init_def)

text \<open>C6. KS sensitivity (section 8, invariant 6): the weight \<open>kw\<close> with which
  \<open>evalConDeriv\<close> scales the sensitivity of a sample, computed from the stored
  \<open>ks_max_fail\<close> and \<open>ks_fail_sum\<close>, is the exact partial derivative of the KS value
  with respect to that sample's failure value.
\<close>

theorem ksAggregate_deriv:
  fixes smp :: "(real \<times> real) list"
  assumes k: "k \<noteq> 0" and pos: "\<forall>(d, f) \<in> set smp. 0 < d" and j: "j < length smp"
  shows "((\<lambda>t. ksAggregate k (smp[j := (fst (smp ! j), t)])) has_real_derivative
            ksWeight k (ksMax smp) (ksSum k (ksMax smp) smp) (fst (smp ! j)) (snd (smp ! j)))
         (at (snd (smp ! j)))"
proof -
  obtain dj fj where sj: "smp ! j = (dj, fj)" by (cases "smp ! j")
  let ?g = "\<lambda>(d, f). d * exp (k * f)"
  let ?S = "sum_list (map ?g smp)"
  have dj: "0 < dj" using pos j sj nth_mem by fastforce
  have ne: "smp \<noteq> []" using j by auto
  have S: "0 < ?S" using ks_terms_pos[OF pos ne] .
  have upd: "sum_list (map ?g (smp[j := (dj, t)])) = ?S - dj * exp (k * fj) + dj * exp (k * t)" for t
    using j sj by (simp add: map_update sum_list_update_eq)
  have eq: "ksAggregate k (smp[j := (dj, t)]) = ln (?S - dj * exp (k * fj) + dj * exp (k * t)) / k" for t
  proof -
    have "\<forall>(d, f) \<in> set (smp[j := (dj, t)]). 0 < d"
      using pos dj set_update_subset_insert[of smp j "(dj, t)"] by auto
    moreover have "smp[j := (dj, t)] \<noteq> []" using j by auto
    ultimately show ?thesis using ksAggregate_shift[OF k] upd[of t] by simp
  qed
  have w: "ksWeight k (ksMax smp) (ksSum k (ksMax smp) smp) dj fj = dj * exp (k * fj) / ?S"
    by (simp add: ksWeight_def ksSum_shift right_diff_distrib exp_diff exp_minus field_simps)
  have "((\<lambda>t. ln (?S - dj * exp (k * fj) + dj * exp (k * t)) / k) has_real_derivative
          dj * exp (k * fj) / ?S) (at fj)"
    using S k by (auto intro!: derivative_eq_intros simp: field_simps)
  then show ?thesis
    using sj w by (simp add: eq)
qed

lemma ksAggregate_deriv_witness:
  "((\<lambda>t. ksAggregate 2 ([(1::real, 0::real), (3, 1)][0 := (fst ([(1::real, 0::real), (3, 1)] ! 0), t)]))
      has_real_derivative
      ksWeight 2 (ksMax [(1::real, 0::real), (3, 1)]) (ksSum 2 (ksMax [(1::real, 0::real), (3, 1)]) [(1, 0), (3, 1)])
        (fst ([(1::real, 0::real), (3, 1)] ! 0)) (snd ([(1::real, 0::real), (3, 1)] ! 0)))
     (at (snd ([(1::real, 0::real), (3, 1)] ! 0)))"
  by (rule ksAggregate_deriv) auto

text \<open>C7. Adjoint of the strain (section 4.6.3, step 1): \<open>addStrainDeriv\<close>, called with
  the Jacobian that \<open>evalStrain\<close> returned, adds \<open>alpha\<close> times the transpose of the
  strain map: the added sensitivities paired with the element and enrichment
  variables give \<open>alpha\<close> times \<open>dfde\<close> paired with the strain.
\<close>

theorem addStrainDeriv_adjoint:
  assumes es: "evalStrain order interp interp_ref pt Xpts vars ubar = Some (detJ, J, e)"
    and ad: "addStrainDeriv order interp pt J alpha dfde (replicate (3 * (order * order * order)) 0)
               (replicate (3 * getNum3dEnrich (int order)) 0) = Some (du, dub)"
  shows "(\<Sum>i\<leftarrow>[0..<order * order * order]. du ! (3 * i) * vars ! (3 * i)
            + du ! (3 * i + 1) * vars ! (3 * i + 1) + du ! (3 * i + 2) * vars ! (3 * i + 2))
       + (\<Sum>r\<leftarrow>[0..<getNum3dEnrich (int order)]. dub ! (3 * r) * ubar ! (3 * r)
            + dub ! (3 * r + 1) * ubar ! (3 * r + 1) + dub ! (3 * r + 2) * ubar ! (3 * r + 2))
       = alpha * (\<Sum>q\<leftarrow>[0..<6]. dfde ! q * e ! q)"
proof -
  let ?L = "order * order * order" and ?R = "getNum3dEnrich (int order)"
  let ?sl = "\<lambda>A B C n. concat (map (\<lambda>i. strainAdjoint J alpha dfde (A ! i) (B ! i) (C ! i)) [0..<n])"
  obtain Nr Nar Nbr Ncr where en: "enrichDeriv3D order pt = Some (Nr, Nar, Nbr, Ncr)"
    using es by (cases "enrichDeriv3D order pt") (auto simp: evalStrain_def)
  obtain N Na Nb Nc where I: "interp pt = (N, Na, Nb, Nc)"
    by (cases "interp pt")
  define Ud where "Ud = localDispGrad ?L ?R vars ubar Na Nb Nc Nar Nbr Ncr"
  let ?H = "strainGradAdjoint J dfde"
  have e: "e = strainFromGrad Ud J"
    using es en I by (auto simp: evalStrain_def Ud_def Let_def split: prod.splits)
  have du: "du = ?sl Na Nb Nc ?L" and dub: "dub = ?sl Nar Nbr Ncr ?R"
    using ad en I by (auto simp: addStrainDeriv_def add_prefix_zero length_concat_blocks)
  have rhs: "(\<Sum>q\<leftarrow>[0..<6]. dfde ! q * e ! q) =
      (Ud ! 0 * ?H ! 0 + Ud ! 1 * ?H ! 1 + Ud ! 2 * ?H ! 2)
    + (Ud ! 3 * ?H ! 3 + Ud ! 4 * ?H ! 4 + Ud ! 5 * ?H ! 5)
    + (Ud ! 6 * ?H ! 6 + Ud ! 7 * ?H ! 7 + Ud ! 8 * ?H ! 8)"
    unfolding e strainFromGrad_adjoint by (simp add: upt_rec eval_nat_numeral algebra_simps)
  show ?thesis
    unfolding rhs
    by (rule ring_regroup6[OF
          addStrainDeriv_blocks[where J = J and alpha = alpha and dfde = dfde and du = du and A = Na
            and B = Nb and C = Nc and n = ?L and v = vars, OF refl du]
          addStrainDeriv_blocks[where J = J and alpha = alpha and dfde = dfde and du = dub and A = Nar
            and B = Nbr and C = Ncr and n = ?R and v = ubar, OF refl dub]
          localDispGrad_pairs[OF Ud_def]])
qed

lemma addStrainDeriv_adjoint_witness:
  "\<exists>detJ J e du dub.
     evalStrain 2 (\<lambda>_. ([1], [1], [2], [3])) (\<lambda>_. ([1], [1], [0], [0])) (0, 0, 0) [1, 0, 0] [5, 6, 7] [1, 2, 3]
       = Some (detJ, J, e) \<and>
     addStrainDeriv 2 (\<lambda>_. ([1], [1], [2], [3])) (0, 0, 0) J 1 [1, 1, 1, 1, 1, 1]
       (replicate (3 * (2 * 2 * 2)) 0) (replicate (3 * getNum3dEnrich (int 2)) 0) = Some (du, dub) \<and>
     (\<Sum>i\<leftarrow>[0..<2 * 2 * 2]. du ! (3 * i) * [5, 6, 7] ! (3 * i)
        + du ! (3 * i + 1) * [5, 6, 7] ! (3 * i + 1) + du ! (3 * i + 2) * [5, 6, 7] ! (3 * i + 2))
     + (\<Sum>r\<leftarrow>[0..<getNum3dEnrich (int 2)]. dub ! (3 * r) * [1, 2, 3] ! (3 * r)
        + dub ! (3 * r + 1) * [1, 2, 3] ! (3 * r + 1) + dub ! (3 * r + 2) * [1, 2, 3] ! (3 * r + 2))
     = 1 * (\<Sum>q\<leftarrow>[0..<6]. [1, 1, 1, 1, 1, 1] ! q * e ! q)"
proof -
  have "\<exists>detJ J e. evalStrain 2 (\<lambda>_. ([1], [1], [2], [3])) (\<lambda>_. ([1], [1], [0], [0])) (0, 0, 0)
      [1, 0, 0] [5, 6, 7] [1, 2, 3] = Some (detJ, J, e)"
    by (simp add: evalStrain_def enrichDeriv3D_def split: prod.split)
  then obtain detJ J e where es: "evalStrain 2 (\<lambda>_. ([1], [1], [2], [3])) (\<lambda>_. ([1], [1], [0], [0]))
      (0, 0, 0) [1, 0, 0] [5, 6, 7] [1, 2, 3] = Some (detJ, J, e)"
    by blast
  have "\<exists>du dub. addStrainDeriv 2 (\<lambda>_. ([1], [1], [2], [3])) (0, 0, 0) J 1 [1, 1, 1, 1, 1, 1]
      (replicate (3 * (2 * 2 * 2)) 0) (replicate (3 * getNum3dEnrich (int 2)) 0) = Some (du, dub)"
    by (simp add: addStrainDeriv_def enrichDeriv3D_def split: prod.split)
  then obtain du dub where ad: "addStrainDeriv 2 (\<lambda>_. ([1], [1], [2], [3])) (0, 0, 0) J 1 [1, 1, 1, 1, 1, 1]
      (replicate (3 * (2 * 2 * 2)) 0) (replicate (3 * getNum3dEnrich (int 2)) 0) = Some (du, dub)"
    by blast
  show ?thesis
    using es ad addStrainDeriv_adjoint[OF es ad] by blast
qed

text \<open>Evaluation protocol: after \<open>evalConstraint\<close> succeeds, its value is the KS
  aggregate of the samples of the state it leaves, and the sensitivity weights of
  \<open>evalConDeriv\<close> are defined from the stored \<open>ks_max_fail\<close> and \<open>ks_fail_sum\<close> of
  those same samples.
\<close>

theorem evalConstraint_protocol:
  assumes "evalConstraint M st u = Some (v, st')"
  shows "\<exists>smp. ksSamples M st' = Some smp \<and> v = ksAggregate (ks_weight st') smp \<and>
           ksDerivWeights st' smp =
             Some (map (\<lambda>(d, f). ksWeight (ks_weight st') (ksMax smp) (ksSum (ks_weight st') (ksMax smp) smp) d f) smp)"
proof -
  obtain smp where smp: "ksSamples M (ksPrepare M st u) = Some smp"
    using assms by (cases "ksSamples M (ksPrepare M st u)") (auto simp: evalConstraint_eq)
  have st': "st' = (ksPrepare M st u)\<lparr>ks_max_fail := Some (ksMax smp),
                 ks_fail_sum := Some (ksSum (ks_weight st) (ksMax smp) smp)\<rparr>"
   and v: "v = ksAggregate (ks_weight st) smp"
    using assms smp by (auto simp: evalConstraint_eq)
  have "ksSamples M st' = Some smp"
    using smp by (simp add: st' ksSamples_def elemQuadSamples_indep)
  moreover have "ks_weight st' = ks_weight st" by (simp add: st' ksPrepare_def)
  ultimately show ?thesis
    using v by (auto simp: ksDerivWeights_def st')
qed

lemma evalConstraint_protocol_witness:
  "\<exists>v st'. evalConstraint
      \<lparr>km_dep = \<lambda>_. [], km_vpn = 3, km_knots = [-1, 1], km_interp = \<lambda>_. ([], [], [], []),
       km_interp_ref = \<lambda>_. ([], [], [], []), km_conn = \<lambda>_. [], km_nelems = 0, km_xpts = \<lambda>_. [],
       km_xref = \<lambda>_. [], km_gauss = \<lambda>_. ([], []), km_failure = \<lambda>_ _ _. 0, km_recon = \<lambda>_ _ _. []\<rparr>
      \<lparr>sc_order = 2, ks_weight = 10, sc_weights = zeroEntries, sc_uvec = zeroEntries,
       sc_uderiv = zeroEntries, ks_max_fail = None, ks_fail_sum = None\<rparr> zeroEntries = Some (v, st') \<and>
      (\<exists>smp. ksSamples
      \<lparr>km_dep = \<lambda>_. [], km_vpn = 3, km_knots = [-1, 1], km_interp = \<lambda>_. ([], [], [], []),
       km_interp_ref = \<lambda>_. ([], [], [], []), km_conn = \<lambda>_. [], km_nelems = 0, km_xpts = \<lambda>_. [],
       km_xref = \<lambda>_. [], km_gauss = \<lambda>_. ([], []), km_failure = \<lambda>_ _ _. 0, km_recon = \<lambda>_ _ _. []\<rparr> st'
         = Some smp \<and> v = ksAggregate (ks_weight st') smp \<and>
         ksDerivWeights st' smp = Some (map (\<lambda>(d, f). ksWeight (ks_weight st') (ksMax smp)
                                     (ksSum (ks_weight st') (ksMax smp) smp) d f) smp))"
proof -
  obtain v st' where ev: "evalConstraint
      \<lparr>km_dep = \<lambda>_. [], km_vpn = 3, km_knots = [-1, 1], km_interp = \<lambda>_. ([], [], [], []),
       km_interp_ref = \<lambda>_. ([], [], [], []), km_conn = \<lambda>_. [], km_nelems = 0, km_xpts = \<lambda>_. [],
       km_xref = \<lambda>_. [], km_gauss = \<lambda>_. ([], []), km_failure = \<lambda>_ _ _. 0, km_recon = \<lambda>_ _ _. []\<rparr>
      \<lparr>sc_order = 2, ks_weight = 10, sc_weights = zeroEntries, sc_uvec = zeroEntries,
       sc_uderiv = zeroEntries, ks_max_fail = None, ks_fail_sum = None\<rparr> zeroEntries = Some (v, st')"
    by (simp add: evalConstraint_eq ksSamples_def)
  show ?thesis
    using ev evalConstraint_protocol[OF ev] by blast
qed

text \<open>C8. Bounds of the integral KS value: with positive weights it lies above every
  failure value plus \<open>ln(weight)/k\<close> and below the maximum plus
  \<open>ln(total weight)/k\<close>.
\<close>

theorem ksAggregate_bounds:
  fixes smp :: "(real \<times> real) list"
  assumes "0 < k" "\<forall>(d, f) \<in> set smp. 0 < d" "smp \<noteq> []"
  shows "(\<forall>(d, f) \<in> set smp. f + ln d / k \<le> ksAggregate k smp) \<and>
         ksAggregate k smp \<le> ksMax smp + ln (\<Sum>(d, f)\<leftarrow>smp. d) / k"
  using ksAggregate_lower[OF assms(1,2)] ksAggregate_upper[OF assms] by auto

lemma ksAggregate_bounds_witness:
  "1 + ln (1/2) / 10 \<le> ksAggregate 10 [(1/2, 1), (1/4, 0)] \<and>
   ln (1/4) / 10 \<le> ksAggregate 10 [(1/2, 1), (1/4, 0)] \<and>
   ksAggregate 10 [(1/2, 1), (1/4, 0)] \<le> ksMax [(1/2 :: real, 1 :: real), (1/4, 0)] + ln (3/4) / 10"
proof -
  have "(\<forall>(d, f) \<in> set [(1/2, 1), (1/4, 0)]. f + ln d / 10 \<le> ksAggregate 10 [(1/2, 1), (1/4, 0)]) \<and>
     ksAggregate 10 [(1/2, 1), (1/4, 0)] \<le>
       ksMax [(1/2, 1), (1/4, 0)] + ln (\<Sum>(d, f)\<leftarrow>[(1/2, 1), (1/4 :: real, 0 :: real)]. d) / 10"
    by (rule ksAggregate_bounds) auto
  then show ?thesis by simp
qed

text \<open>C9. The integral KS value is not an upper bound of the maximum (spec section 9
  calls it one): when the weighted volume of the samples is below one, the value is
  strictly below the maximum failure value for every positive KS weight.
\<close>

theorem ksAggregate_below_max:
  fixes smp :: "(real \<times> real) list"
  assumes "0 < k" "\<forall>(d, f) \<in> set smp. 0 < d" "smp \<noteq> []" "(\<Sum>(d, f)\<leftarrow>smp. d) < 1"
  shows "ksAggregate k smp < ksMax smp"
proof -
  have "0 < (\<Sum>(d, f)\<leftarrow>smp. d)" by (rule sum_list_pos) (use assms in auto)
  then have "ln (\<Sum>(d, f)\<leftarrow>smp. d) / k < 0"
    using assms(1,4) by (simp add: divide_neg_pos)
  then show ?thesis using ksAggregate_upper[OF assms(1-3)] by linarith
qed

lemma ksAggregate_below_max_witness:
  "ksAggregate 10 [(1/2, 1)] < ksMax [(1/2 :: real, 1 :: real)]"
  by (rule ksAggregate_below_max) auto

text \<open>The sensitivity weights \<open>kw\<close> of all samples sum to one whenever the sum they
  are divided by is non-zero.
\<close>

theorem ksWeight_partition:
  assumes "ksSum k mx smp \<noteq> 0"
  shows "(\<Sum>(d, f)\<leftarrow>smp. ksWeight k mx (ksSum k mx smp) d f) = 1"
  using ksWeight_sum[OF assms] .

lemma ksWeight_partition_witness:
  "(\<Sum>(d, f)\<leftarrow>[(1, 0), (2, 0)]. ksWeight 1 0 (ksSum 1 0 [(1, 0), (2 :: real, 0 :: real)]) d f) = 1"
  by (rule ksWeight_partition) (simp add: ksSum_def)

text \<open>Unsupported orders: for a mesh order other than 2 and 3, \<open>evalStrain\<close> reads
  enrichment arrays that were never written, so \<open>evalConstraint\<close> on a non-empty mesh
  has no defined value.
\<close>

theorem evalConstraint_unsupported_order:
  assumes "0 < km_nelems M" "sc_order st \<notin> {2, 3}"
  shows "evalConstraint M st u = None"
proof -
  have "elemQuadSamples M (ksPrepare M st u) 0 = None"
    using assms(2)
    by (simp add: elemQuadSamples_def evalStrain_def enrichDeriv3D_def ksPrepare_def Let_def
        those_None_iff split: prod.split)
  moreover have "[0..<km_nelems M] = 0 # [1..<km_nelems M]"
    using assms(1) by (simp add: upt_rec)
  ultimately show ?thesis
    by (simp add: evalConstraint_eq ksSamples_def)
qed

lemma evalConstraint_unsupported_order_witness:
  "evalConstraint
      \<lparr>km_dep = \<lambda>_. [], km_vpn = 3, km_knots = [-1, -1/3, 1/3, 1], km_interp = \<lambda>_. ([], [], [], []),
       km_interp_ref = \<lambda>_. ([], [], [], []), km_conn = \<lambda>_. [], km_nelems = 1, km_xpts = \<lambda>_. [],
       km_xref = \<lambda>_. [], km_gauss = \<lambda>_. ([0, 0, 0, 0, 0], [1, 1, 1, 1, 1]), km_failure = \<lambda>_ _ _. 0,
       km_recon = \<lambda>_ _ _. []\<rparr>
      \<lparr>sc_order = 4, ks_weight = 10, sc_weights = zeroEntries, sc_uvec = zeroEntries,
       sc_uderiv = zeroEntries, ks_max_fail = None, ks_fail_sum = None\<rparr> zeroEntries = None"
  by (rule evalConstraint_unsupported_order) auto

end
