(* ===== verification/Recon.thy ===== *)
theory Recon
  imports NodeDeriv Enrichment
begin

text \<open>
  The patch reconstruction (component C4 of the spec): \<open>computeElemRecon2D\<close> and
  \<open>computeElemRecon3D\<close>, \<open>src/src/TMRGeometry.c\<close> lines 1141--1455.  For one element
  the code assembles, at every knot of the coarse element, one row per physical
  direction (two in 2D, in the tangent frame \<open>d1, d2\<close> of the shell; three in 3D):
  the column of enrichment function \<open>i\<close> holds the weighted physical derivative of
  that function, the right-hand side of variable \<open>k\<close> the weighted mismatch between
  the prescribed nodal derivative and the derivative of the coarse interpolant.
  LAPACK's \<open>dgelss\<close> then overwrites each right-hand side with its minimum-norm
  least-squares solution, and the code copies the first \<open>nenrich\<close> entries into
  \<open>ubar[vars_per_node*i + j]\<close>.

  \<^item> The knot loop is \<open>reconKnot2D/3D\<close>, which returns the rows of one knot: for each
    variable its right-hand-side entries and for each enrichment function its
    matrix entries.  \<open>reconSystem2D/3D\<close> lays them out column by column as the code
    does (\<open>A[neq*i + c]\<close>, \<open>b[neq*k + c]\<close>).
  \<^item> \<open>dgelss\<close> is a parameter of type \<open>lsq_solver\<close>: given \<open>m\<close>, \<open>n\<close>, the column-major
    \<open>m \<times> n\<close> matrix and one right-hand side, it returns the solution vector.  The
    code passes all right-hand sides at once; \<open>dgelss\<close> treats them column by
    column, so the model calls the solver once per variable (\<open>reconSolve\<close>).
  \<^item> In 3D the weights \<open>wvals\<close> and the enrichment derivatives are only written for
    orders 2 and 3; any other order reads uninitialised memory and the model
    returns \<open>None\<close>.  In 2D the \<open>else\<close> branch covers order 4 (and any order below 2);
    an order above 4 reads past \<open>wvals[4]\<close> and gives \<open>None\<close>.

  The lemmas show that the residual of the least-squares system at each row is
  the weighted mismatch between the physical derivative of the enriched field
  and the prescribed derivative, so that a zero residual reproduces the nodal
  derivatives at every knot, and that a constant field with zero derivatives
  has a zero right-hand side and, for a linear solver, zero enrichment.
\<close>

type_synonym lsq_solver = "nat \<Rightarrow> nat \<Rightarrow> real list \<Rightarrow> real list \<Rightarrow> real list"

subsection \<open>Knot weights\<close>

definition reconWvals2D :: "nat \<Rightarrow> real list" where
  "reconWvals2D order =
     (if order = 2 then [1, 1] else if order = 3 then [1/2, 1, 1/2] else [1/2, 1, 1, 1/2])"

definition reconWvals3D :: "nat \<Rightarrow> real list option" where
  "reconWvals3D order =
     (if order = 2 then Some [1, 1] else if order = 3 then Some [1/2, 1, 1/2] else None)"

subsection \<open>The rows of one knot\<close>

definition reconKnot3D ::
  "nat \<Rightarrow> nat \<Rightarrow> nat \<Rightarrow> real list \<Rightarrow> interp3 \<Rightarrow> interp3 \<Rightarrow> real list \<Rightarrow> real list
   \<Rightarrow> real list \<Rightarrow> real list \<Rightarrow> nat \<Rightarrow> nat \<Rightarrow> nat \<Rightarrow> (real list list \<times> real list list) option" where
  "reconKnot3D vpn order rorder knots interp interp_ref wvals Xpts uvals uderiv ii jj kk =
     (let pt = (knots ! ii, knots ! jj, knots ! kk);
          (Nf, Naf, Nbf, Ncf) = interp_ref pt;
          (Xd, J, h) = computeJacobianTrans3D Xpts Naf Nbf Ncf (rorder * rorder * rorder);
          wt = wvals ! ii * wvals ! jj * wvals ! kk;
          slot = ii + order * jj + order * order * kk;
          (N, Na, Nb, Nc) = interp pt;
          nn = order * order * order
      in case enrichDeriv3D order pt of
           None \<Rightarrow> None
         | Some (Nr, Nar, Nbr, Ncr) \<Rightarrow>
             Some (map (\<lambda>k. let ud = 3 * vpn * slot + 3 * k;
                                 Ua = strided_dot uvals vpn k Na nn;
                                 Ub = strided_dot uvals vpn k Nb nn;
                                 Uc = strided_dot uvals vpn k Nc nn
                             in [wt * uderiv ! ud - wt * (Ua * J ! 0 + Ub * J ! 1 + Uc * J ! 2),
                                 wt * uderiv ! (ud + 1) - wt * (Ua * J ! 3 + Ub * J ! 4 + Uc * J ! 5),
                                 wt * uderiv ! (ud + 2) - wt * (Ua * J ! 6 + Ub * J ! 7 + Uc * J ! 8)])
                       [0..<vpn],
                   map (\<lambda>i. [wt * (Nar ! i * J ! 0 + Nbr ! i * J ! 1 + Ncr ! i * J ! 2),
                             wt * (Nar ! i * J ! 3 + Nbr ! i * J ! 4 + Ncr ! i * J ! 5),
                             wt * (Nar ! i * J ! 6 + Nbr ! i * J ! 7 + Ncr ! i * J ! 8)])
                       [0..<getNum3dEnrich (int order)]))"

definition reconKnot2D ::
  "nat \<Rightarrow> nat \<Rightarrow> nat \<Rightarrow> real list \<Rightarrow> real list \<Rightarrow> interp2 \<Rightarrow> interp2 \<Rightarrow> real list \<Rightarrow> real list
   \<Rightarrow> real list \<Rightarrow> real list \<Rightarrow> nat \<Rightarrow> nat \<Rightarrow> real list list \<times> real list list" where
  "reconKnot2D vpn order rorder knots rknots interp interp_ref wvals Xpts uvals uderiv ii jj =
     (let pt = (knots ! ii, knots ! jj);
          (Nf, Naf, Nbf) = interp_ref pt;
          (Xd, J, h) = computeJacobianTrans2D Xpts Naf Nbf (rorder * rorder);
          d1 = normalize3D (take 3 Xd);
          d2 = crossProduct3D (drop 6 Xd) d1;
          wt = wvals ! ii * wvals ! jj;
          slot = ii + order * jj;
          (N, Na, Nb) = interp pt;
          nn = order * order;
          (Nr, Nar, Nbr) = evalEnrichmentFuncs2D_d (int order) pt rknots
      in (map (\<lambda>k. let ud = 3 * vpn * slot + 3 * k;
                       Ua = strided_dot uvals vpn k Na nn;
                       Ub = strided_dot uvals vpn k Nb nn;
                       d = [Ua * J ! 0 + Ub * J ! 1, Ua * J ! 3 + Ub * J ! 4, Ua * J ! 6 + Ub * J ! 7]
                   in [wt * (d1 ! 0 * uderiv ! ud + d1 ! 1 * uderiv ! (ud + 1) + d1 ! 2 * uderiv ! (ud + 2))
                         - wt * (d1 ! 0 * d ! 0 + d1 ! 1 * d ! 1 + d1 ! 2 * d ! 2),
                       wt * (d2 ! 0 * uderiv ! ud + d2 ! 1 * uderiv ! (ud + 1) + d2 ! 2 * uderiv ! (ud + 2))
                         - wt * (d2 ! 0 * d ! 0 + d2 ! 1 * d ! 1 + d2 ! 2 * d ! 2)])
            [0..<vpn],
          map (\<lambda>i. let d = [Nar ! i * J ! 0 + Nbr ! i * J ! 1, Nar ! i * J ! 3 + Nbr ! i * J ! 4,
                            Nar ! i * J ! 6 + Nbr ! i * J ! 7]
                   in [wt * (d1 ! 0 * d ! 0 + d1 ! 1 * d ! 1 + d1 ! 2 * d ! 2),
                       wt * (d2 ! 0 * d ! 0 + d2 ! 1 * d ! 1 + d2 ! 2 * d ! 2)])
            [0..<getNum2dEnrich (int order)]))"

subsection \<open>Assembly of the system and the solve\<close>

text \<open>
  \<open>reconColumns\<close> lays out the per-knot rows: the matrix column by column (all knots
  of enrichment function 0, then of function 1, ...) and one right-hand side per
  variable.  \<open>reconSolve\<close> is the \<open>dgelss\<close> call followed by the copy into \<open>ubar\<close>.
\<close>

definition reconColumns ::
  "nat \<Rightarrow> nat \<Rightarrow> (real list list \<times> real list list) list \<Rightarrow> real list \<times> real list list" where
  "reconColumns vpn nenrich rows =
     (concat (map (\<lambda>i. concat (map (\<lambda>r. snd r ! i) rows)) [0..<nenrich]),
      map (\<lambda>k. concat (map (\<lambda>r. fst r ! k) rows)) [0..<vpn])"

definition reconSystem3D ::
  "nat \<Rightarrow> nat \<Rightarrow> nat \<Rightarrow> real list \<Rightarrow> interp3 \<Rightarrow> interp3 \<Rightarrow> real list \<Rightarrow> real list \<Rightarrow> real list
   \<Rightarrow> (real list \<times> real list list) option" where
  "reconSystem3D vpn order rorder knots interp interp_ref Xpts uvals uderiv =
     (case reconWvals3D order of
        None \<Rightarrow> None
      | Some wvals \<Rightarrow>
          map_option (reconColumns vpn (getNum3dEnrich (int order)))
            (those [reconKnot3D vpn order rorder knots interp interp_ref wvals Xpts uvals uderiv ii jj kk.
                      kk \<leftarrow> [0..<order], jj \<leftarrow> [0..<order], ii \<leftarrow> [0..<order]]))"

definition reconSystem2D ::
  "nat \<Rightarrow> nat \<Rightarrow> nat \<Rightarrow> real list \<Rightarrow> real list \<Rightarrow> interp2 \<Rightarrow> interp2 \<Rightarrow> real list \<Rightarrow> real list
   \<Rightarrow> real list \<Rightarrow> (real list \<times> real list list) option" where
  "reconSystem2D vpn order rorder knots rknots interp interp_ref Xpts uvals uderiv =
     (if 4 < order then None
      else Some (reconColumns vpn (getNum2dEnrich (int order))
              [reconKnot2D vpn order rorder knots rknots interp interp_ref (reconWvals2D order)
                 Xpts uvals uderiv ii jj.
                 jj \<leftarrow> [0..<order], ii \<leftarrow> [0..<order]]))"

definition reconSolve ::
  "lsq_solver \<Rightarrow> nat \<Rightarrow> nat \<Rightarrow> nat \<Rightarrow> real list \<times> real list list \<Rightarrow> real list" where
  "reconSolve lsq vpn neq nenrich AB =
     (case AB of (A, B) \<Rightarrow>
        let X = map (lsq neq nenrich A) B
        in concat (map (\<lambda>i. map (\<lambda>j. X ! j ! i) [0..<vpn]) [0..<nenrich]))"

definition computeElemRecon3D ::
  "lsq_solver \<Rightarrow> nat \<Rightarrow> nat \<Rightarrow> nat \<Rightarrow> real list \<Rightarrow> interp3 \<Rightarrow> interp3 \<Rightarrow> real list \<Rightarrow> real list
   \<Rightarrow> real list \<Rightarrow> real list option" where
  "computeElemRecon3D lsq vpn order rorder knots interp interp_ref Xpts uvals uderiv =
     map_option (reconSolve lsq vpn (3 * order * order * order) (getNum3dEnrich (int order)))
       (reconSystem3D vpn order rorder knots interp interp_ref Xpts uvals uderiv)"

definition computeElemRecon2D ::
  "lsq_solver \<Rightarrow> nat \<Rightarrow> nat \<Rightarrow> nat \<Rightarrow> real list \<Rightarrow> real list \<Rightarrow> interp2 \<Rightarrow> interp2 \<Rightarrow> real list
   \<Rightarrow> real list \<Rightarrow> real list \<Rightarrow> real list option" where
  "computeElemRecon2D lsq vpn order rorder knots rknots interp interp_ref Xpts uvals uderiv =
     map_option (reconSolve lsq vpn (2 * order * order) (getNum2dEnrich (int order)))
       (reconSystem2D vpn order rorder knots rknots interp interp_ref Xpts uvals uderiv)"


subsection \<open>The least-squares system\<close>

text \<open>
  \<open>colmajor_mult m n A x\<close> is the product of the column-major \<open>m \<times> n\<close> matrix \<open>A\<close>
  (the layout \<open>dgelss\<close> reads) with the vector \<open>x\<close>: the residual of the system is
  \<open>colmajor_mult m n A x - b\<close>.
\<close>

definition colmajor_mult :: "nat \<Rightarrow> nat \<Rightarrow> real list \<Rightarrow> real list \<Rightarrow> real list" where
  "colmajor_mult m n A x = map (\<lambda>r. \<Sum>i\<leftarrow>[0..<n]. A ! (m * i + r) * x ! i) [0..<m]"

subsection \<open>Layout of the system\<close>

lemma reconKnot3D_Some:
  assumes "reconKnot3D vpn order rorder knots interp interp_ref wvals Xpts uvals uderiv ii jj kk = Some r"
  shows "length (fst r) = vpn \<and> (\<forall>k < vpn. length (fst r ! k) = 3) \<and>
         length (snd r) = getNum3dEnrich (int order) \<and> (\<forall>i < getNum3dEnrich (int order). length (snd r ! i) = 3)"
  using assms by (auto simp: reconKnot3D_def Let_def split: prod.splits option.splits)

lemma reconColumns_nth:
  assumes len: "\<forall>r \<in> set rows. length (fst r) = vpn \<and> (\<forall>k < vpn. length (fst r ! k) = 3) \<and>
                  length (snd r) = n \<and> (\<forall>i < n. length (snd r ! i) = 3)"
    and idx: "s < length rows" "c < 3"
  shows "i < n \<Longrightarrow> fst (reconColumns vpn n rows) ! (3 * length rows * i + (3 * s + c)) = snd (rows ! s) ! i ! c"
    and "k < vpn \<Longrightarrow> snd (reconColumns vpn n rows) ! k ! (3 * s + c) = fst (rows ! s) ! k ! c"
proof -
  assume i: "i < n"
  have blk: "length (concat (map (\<lambda>r. snd r ! i) rows)) = 3 * length rows" if "i < n" for i
    using len that by (subst length_concat_blocks[where bs = 3]) auto
  have "fst (reconColumns vpn n rows) ! (3 * length rows * i + (3 * s + c)) =
        concat (map (\<lambda>r. snd r ! i) rows) ! (3 * s + c)"
    unfolding reconColumns_def fst_conv
    by (subst nth_concat_blocks[where bs = "3 * length rows"]) (use i idx blk in auto)
  also have "\<dots> = snd (rows ! s) ! i ! c"
    by (rule nth_concat_blocks) (use len i idx in auto)
  finally show "fst (reconColumns vpn n rows) ! (3 * length rows * i + (3 * s + c)) = snd (rows ! s) ! i ! c" .
next
  assume k: "k < vpn"
  have "snd (reconColumns vpn n rows) ! k ! (3 * s + c) = concat (map (\<lambda>r. fst r ! k) rows) ! (3 * s + c)"
    using k by (simp add: reconColumns_def)
  also have "\<dots> = fst (rows ! s) ! k ! c"
    by (rule nth_concat_blocks) (use len k idx in auto)
  finally show "snd (reconColumns vpn n rows) ! k ! (3 * s + c) = fst (rows ! s) ! k ! c" .
qed

lemma reconKnot3D_entries:
  assumes r: "reconKnot3D vpn order rorder knots interp interp_ref wvals Xpts uvals uderiv ii jj kk = Some r"
    and ref: "interp_ref (knots ! ii, knots ! jj, knots ! kk) = (Nf, Naf, Nbf, Ncf)"
    and jac: "computeJacobianTrans3D Xpts Naf Nbf Ncf (rorder * rorder * rorder) = (Xd, J, h)"
    and crs: "interp (knots ! ii, knots ! jj, knots ! kk) = (N, Na, Nb, Nc)"
    and enr: "enrichDeriv3D order (knots ! ii, knots ! jj, knots ! kk) = Some (Nr, Nar, Nbr, Ncr)"
    and c: "c < 3"
  shows "i < getNum3dEnrich (int order) \<Longrightarrow>
           snd r ! i ! c = wvals ! ii * wvals ! jj * wvals ! kk *
             (Nar ! i * J ! (3 * c) + Nbr ! i * J ! (3 * c + 1) + Ncr ! i * J ! (3 * c + 2))"
    and "k < vpn \<Longrightarrow>
           fst r ! k ! c = wvals ! ii * wvals ! jj * wvals ! kk *
               uderiv ! (3 * vpn * (ii + order * jj + order * order * kk) + 3 * k + c)
             - wvals ! ii * wvals ! jj * wvals ! kk *
               (strided_dot uvals vpn k Na (order * order * order) * J ! (3 * c) +
                strided_dot uvals vpn k Nb (order * order * order) * J ! (3 * c + 1) +
                strided_dot uvals vpn k Nc (order * order * order) * J ! (3 * c + 2))"
  using r less_3_cases[OF c]
  by (auto simp: reconKnot3D_def ref jac crs enr Let_def add.assoc numeral_2_eq_2 simp del: upt_Suc)

lemma reconSystem3D_Some:
  assumes "reconSystem3D vpn order rorder knots interp interp_ref Xpts uvals uderiv = Some AB"
  obtains wvals rows where "reconWvals3D order = Some wvals" "length rows = order * order * order"
    "\<forall>s < order * order * order. reconKnot3D vpn order rorder knots interp interp_ref wvals Xpts uvals uderiv
        (s mod order) (s div order mod order) (s div order div order) = Some (rows ! s)"
    "AB = reconColumns vpn (getNum3dEnrich (int order)) rows"
proof -
  obtain wvals where w: "reconWvals3D order = Some wvals"
    using assms by (auto simp: reconSystem3D_def split: option.splits)
  let ?f = "\<lambda>s. reconKnot3D vpn order rorder knots interp interp_ref wvals Xpts uvals uderiv
        (s mod order) (s div order mod order) (s div order div order)"
  obtain rows where rows: "those (map ?f [0..<order * order * order]) = Some rows"
    "AB = reconColumns vpn (getNum3dEnrich (int order)) rows"
    using assms w by (auto simp: reconSystem3D_def grid3_as_slots)
  show ?thesis
    using that[OF w] those_map_Some[OF rows(1)] rows(2) by auto
qed

lemma reconSystem3D_residual:
  assumes sys: "reconSystem3D vpn order rorder knots interp interp_ref Xpts uvals uderiv = Some (A, B)"
    and wv: "reconWvals3D order = Some wvals"
    and idx: "ii < order" "jj < order" "kk < order" "k < vpn" "c < 3"
    and ref: "interp_ref (knots ! ii, knots ! jj, knots ! kk) = (Nf, Naf, Nbf, Ncf)"
    and jac: "computeJacobianTrans3D Xpts Naf Nbf Ncf (rorder * rorder * rorder) = (Xd, J, h)"
    and crs: "interp (knots ! ii, knots ! jj, knots ! kk) = (N, Na, Nb, Nc)"
    and enr: "enrichDeriv3D order (knots ! ii, knots ! jj, knots ! kk) = Some (Nr, Nar, Nbr, Ncr)"
  shows "colmajor_mult (3 * order * order * order) (getNum3dEnrich (int order)) A x
             ! (3 * (ii + order * jj + order * order * kk) + c)
           - B ! k ! (3 * (ii + order * jj + order * order * kk) + c) =
         wvals ! ii * wvals ! jj * wvals ! kk *
           ((strided_dot uvals vpn k Na (order * order * order) + strided_dot x 1 0 Nar (getNum3dEnrich (int order)))
              * J ! (3 * c) +
            (strided_dot uvals vpn k Nb (order * order * order) + strided_dot x 1 0 Nbr (getNum3dEnrich (int order)))
              * J ! (3 * c + 1) +
            (strided_dot uvals vpn k Nc (order * order * order) + strided_dot x 1 0 Ncr (getNum3dEnrich (int order)))
              * J ! (3 * c + 2)
            - uderiv ! (3 * vpn * (ii + order * jj + order * order * kk) + 3 * k + c))"
proof -
  let ?s = "ii + order * jj + order * order * kk"
  let ?n = "getNum3dEnrich (int order)"
  let ?w = "wvals ! ii * wvals ! jj * wvals ! kk"
  obtain wv' rows where w': "reconWvals3D order = Some wv'" and len: "length rows = order * order * order"
    and rows: "\<forall>s < order * order * order. reconKnot3D vpn order rorder knots interp interp_ref wv' Xpts uvals uderiv
        (s mod order) (s div order mod order) (s div order div order) = Some (rows ! s)"
    and AB: "(A, B) = reconColumns vpn ?n rows"
    using reconSystem3D_Some[OF sys] by metis
  have wv': "wv' = wvals" using w' wv by simp
  note dec = slot3_decode[OF idx(1-3)]
  have r: "reconKnot3D vpn order rorder knots interp interp_ref wvals Xpts uvals uderiv ii jj kk = Some (rows ! ?s)"
    using rows dec wv' by metis
  have lens: "\<forall>r \<in> set rows. length (fst r) = vpn \<and> (\<forall>k < vpn. length (fst r ! k) = 3) \<and>
                  length (snd r) = ?n \<and> (\<forall>i < ?n. length (snd r ! i) = 3)"
    using rows reconKnot3D_Some len by (metis in_set_conv_nth)
  have sl: "?s < length rows" using dec len by simp
  have Ai: "A ! (3 * order * order * order * i + (3 * ?s + c)) = ?w * (Nar ! i * J ! (3 * c) + Nbr ! i * J ! (3 * c + 1) + Ncr ! i * J ! (3 * c + 2))"
    if "i < ?n" for i
    using reconColumns_nth(1)[OF lens sl idx(5) that] AB len
      reconKnot3D_entries(1)[OF r ref jac crs enr idx(5) that]
    by (metis fst_conv mult.assoc)
  have Bk: "B ! k ! (3 * ?s + c) = ?w * uderiv ! (3 * vpn * ?s + 3 * k + c) -
               ?w * (strided_dot uvals vpn k Na (order * order * order) * J ! (3 * c) +
                strided_dot uvals vpn k Nb (order * order * order) * J ! (3 * c + 1) +
                strided_dot uvals vpn k Nc (order * order * order) * J ! (3 * c + 2))"
    using reconColumns_nth(2)[OF lens sl idx(5) idx(4)] AB
      reconKnot3D_entries(2)[OF r ref jac crs enr idx(5) idx(4)]
    by (metis snd_conv)
  define row where "row = 3 * ?s + c"
  have "row < 3 * (order * order * order)" unfolding row_def using block_index_less[OF dec(4) idx(5)] .
  hence rowlt: "row < 3 * order * order * order" by (simp only: mult.assoc)
  have "colmajor_mult (3 * order * order * order) ?n A x ! row =
        (\<Sum>i\<leftarrow>[0..<?n]. A ! (3 * order * order * order * i + row) * x ! i)"
    using rowlt by (simp add: colmajor_mult_def)
  also have "\<dots> = (\<Sum>i\<leftarrow>[0..<?n]. ?w * (Nar ! i * J ! (3 * c) + Nbr ! i * J ! (3 * c + 1) + Ncr ! i * J ! (3 * c + 2)) * x ! i)"
    by (intro arg_cong[where f = sum_list] map_cong) (simp_all add: Ai[folded row_def])
  also have "\<dots> = ?w * (strided_dot x 1 0 Nar ?n * J ! (3 * c) + strided_dot x 1 0 Nbr ?n * J ! (3 * c + 1)
                      + strided_dot x 1 0 Ncr ?n * J ! (3 * c + 2))"
    by (simp only: strided_dot_comb3) (simp add: sum_list_const_mult[symmetric] algebra_simps)
  finally show ?thesis using Bk unfolding row_def by (simp add: algebra_simps)
qed

lemma reconWvals3D_pos:
  "reconWvals3D order = Some wvals \<Longrightarrow> i < order \<Longrightarrow> 0 < wvals ! i"
  by (auto simp: reconWvals3D_def nth_Cons split: if_splits nat.splits)

lemma reconSystem3D_defined:
  "reconSystem3D vpn order rorder knots interp interp_ref Xpts uvals uderiv \<noteq> None \<longleftrightarrow> order = 2 \<or> order = 3"
proof
  assume "reconSystem3D vpn order rorder knots interp interp_ref Xpts uvals uderiv \<noteq> None"
  then show "order = 2 \<or> order = 3"
    by (auto simp: reconSystem3D_def reconWvals3D_def split: if_splits)
next
  assume o: "order = 2 \<or> order = 3"
  then obtain wvals where w: "reconWvals3D order = Some wvals" by (auto simp: reconWvals3D_def)
  have "reconKnot3D vpn order rorder knots interp interp_ref wvals Xpts uvals uderiv ii jj kk \<noteq> None" for ii jj kk
    using o by (auto simp: reconKnot3D_def enrichDeriv3D_def Let_def split: prod.splits)
  then have "those (map (\<lambda>s. reconKnot3D vpn order rorder knots interp interp_ref wvals Xpts uvals uderiv
      (s mod order) (s div order mod order) (s div order div order)) [0..<order * order * order]) \<noteq> None"
    by (simp only: those_map_Some_iff) blast
  then show "reconSystem3D vpn order rorder knots interp interp_ref Xpts uvals uderiv \<noteq> None"
    using w by (auto simp: reconSystem3D_def grid3_as_slots)
qed

lemma reconColumns_lengths:
  assumes "\<forall>r \<in> set rows. length (fst r) = vpn \<and> (\<forall>k < vpn. length (fst r ! k) = 3) \<and>
                  length (snd r) = n \<and> (\<forall>i < n. length (snd r ! i) = 3)"
  shows "length (snd (reconColumns vpn n rows)) = vpn"
    "k < vpn \<Longrightarrow> length (snd (reconColumns vpn n rows) ! k) = 3 * length rows"
  using assms by (auto simp: reconColumns_def length_concat_blocks[where bs = 3])

lemma reconSolve_nth:
  assumes "i < n" "k < vpn" "length B = vpn"
  shows "reconSolve lsq vpn neq n (A, B) ! (vpn * i + k) = lsq neq n A (B ! k) ! i"
  unfolding reconSolve_def using assms
  by (simp, subst nth_concat_blocks[where bs = vpn]) auto

lemma length_reconSolve:
  "length (reconSolve lsq vpn neq n AB) = n * vpn"
  by (auto simp: reconSolve_def length_concat_blocks[where bs = vpn] split: prod.splits)

lemma reconSystem3D_const_rhs:
  assumes sys: "reconSystem3D vpn order rorder knots interp interp_ref Xpts uvals uderiv = Some (A, B)"
    and const: "\<forall>i < order * order * order. \<forall>k < vpn. uvals ! (vpn * i + k) = a k"
    and zero: "\<forall>j < 3 * vpn * (order * order * order). uderiv ! j = 0"
    and basis: "\<forall>ii < order. \<forall>jj < order. \<forall>kk < order. knot_basis_ok3D order knots interp ii jj kk"
    and k: "k < vpn"
  shows "B ! k = replicate (3 * order * order * order) 0"
proof -
  let ?n = "getNum3dEnrich (int order)"
  obtain wvals rows where wv: "reconWvals3D order = Some wvals" and len: "length rows = order * order * order"
    and rows: "\<forall>s < order * order * order. reconKnot3D vpn order rorder knots interp interp_ref wvals Xpts uvals uderiv
        (s mod order) (s div order mod order) (s div order div order) = Some (rows ! s)"
    and AB: "(A, B) = reconColumns vpn ?n rows"
    using reconSystem3D_Some[OF sys] by metis
  have ord: "order = 2 \<or> order = 3" using reconSystem3D_defined sys by blast
  have lens: "\<forall>r \<in> set rows. length (fst r) = vpn \<and> (\<forall>k < vpn. length (fst r ! k) = 3) \<and>
                  length (snd r) = ?n \<and> (\<forall>i < ?n. length (snd r ! i) = 3)"
    using rows reconKnot3D_Some len by (metis in_set_conv_nth)
  have lenBk: "length (B ! k) = 3 * order * order * order"
    using reconColumns_lengths(2)[OF lens k] AB len by (metis snd_conv mult.assoc)
  show ?thesis
  proof (rule nth_equalityI)
    show "length (B ! k) = length (replicate (3 * order * order * order) 0)" using lenBk by simp
  next
    fix j assume "j < length (B ! k)"
    then have j: "j < 3 * (order * order * order)" using lenBk by (simp add: mult.assoc)
    define s where "s = j div 3"
    define c where "c = j mod 3"
    have js: "j = 3 * s + c" unfolding s_def c_def by simp
    have c: "c < 3" unfolding c_def by simp
    have sl: "s < order * order * order" using j unfolding s_def by simp
    let ?ii = "s mod order" let ?jj = "s div order mod order" let ?kk = "s div order div order"
    have p: "0 < order" using ord by auto
    have iis: "?ii < order" "?jj < order" "?kk < order"
      using p sl by (auto simp: div_less_iff_less_mult mult.assoc)
    obtain Nf Naf Nbf Ncf where ref: "interp_ref (knots ! ?ii, knots ! ?jj, knots ! ?kk) = (Nf, Naf, Nbf, Ncf)"
      by (metis prod_cases4)
    obtain Xd J h where jac: "computeJacobianTrans3D Xpts Naf Nbf Ncf (rorder * rorder * rorder) = (Xd, J, h)"
      by (metis prod_cases3)
    obtain N Na Nb Nc where crs: "interp (knots ! ?ii, knots ! ?jj, knots ! ?kk) = (N, Na, Nb, Nc)"
      by (metis prod_cases4)
    obtain Nr Nar Nbr Ncr where enr: "enrichDeriv3D order (knots ! ?ii, knots ! ?jj, knots ! ?kk) = Some (Nr, Nar, Nbr, Ncr)"
    proof -
      let ?pt = "(knots ! ?ii, knots ! ?jj, knots ! ?kk)"
      obtain q where "enrichDeriv3D order ?pt = Some q"
        using ord enrichDeriv3D_def[of order ?pt] by (metis (full_types))
      then show thesis using that by (metis prod_cases4)
    qed
    have bs: "sum_list (map (\<lambda>i. Na ! i) [0..<order * order * order]) = 0"
        "sum_list (map (\<lambda>i. Nb ! i) [0..<order * order * order]) = 0"
        "sum_list (map (\<lambda>i. Nc ! i) [0..<order * order * order]) = 0"
      using basis[rule_format, OF iis] crs by (simp_all add: knot_basis_ok3D_def)
    have U: "strided_dot uvals vpn k M (order * order * order) = a k * sum_list (map (\<lambda>i. M ! i) [0..<order * order * order])"
      for M by (rule strided_dot_const) (use const k in auto)
    have ud: "3 * vpn * s + 3 * k + c < 3 * vpn * (order * order * order)"
      using block_index_less[OF sl block_index_less[OF k c]] by (simp add: algebra_simps)
    have "B ! k ! j = fst (rows ! s) ! k ! c"
      using reconColumns_nth(2)[OF lens _ c k] sl len AB js by (metis snd_conv)
    also have "\<dots> = 0"
      using reconKnot3D_entries(2)[OF rows[rule_format, OF sl] ref jac crs enr c k] zero ud
      by (simp add: U bs slot_recompose3)
    finally show "B ! k ! j = replicate (3 * order * order * order) 0 ! j"
      using j by (simp add: mult.assoc)
  qed
qed

lemma colmajor_mult_zero:
  "colmajor_mult m n A (replicate n 0) = replicate m 0"
  by (simp add: colmajor_mult_def sum_list_upt_zero map_replicate_const)

subsection \<open>Properties of the reconstruction\<close>

text \<open>C3. Derivative reproduction (spec section 4.4): the residual of each row of the
  system \<open>computeElemRecon3D\<close> assembles is the weighted mismatch between the physical
  derivative of the enriched field and the prescribed nodal derivative, so when the
  solver returns an exact solution the reconstructed field \<open>u + Nr ubar\<close> has exactly
  the prescribed derivative at every knot of the element.
\<close>

theorem computeElemRecon3D_reproduces:
  assumes sys: "reconSystem3D vpn order rorder knots interp interp_ref Xpts uvals uderiv = Some (A, B)"
    and exact: "\<forall>k < vpn. colmajor_mult (3 * order * order * order) (getNum3dEnrich (int order)) A
                   (lsq (3 * order * order * order) (getNum3dEnrich (int order)) A (B ! k)) = B ! k"
    and rec: "computeElemRecon3D lsq vpn order rorder knots interp interp_ref Xpts uvals uderiv = Some ubar"
    and idx: "ii < order" "jj < order" "kk < order" "k < vpn" "c < 3"
    and ref: "interp_ref (knots ! ii, knots ! jj, knots ! kk) = (Nf, Naf, Nbf, Ncf)"
    and jac: "computeJacobianTrans3D Xpts Naf Nbf Ncf (rorder * rorder * rorder) = (Xd, J, h)"
    and crs: "interp (knots ! ii, knots ! jj, knots ! kk) = (N, Na, Nb, Nc)"
    and enr: "enrichDeriv3D order (knots ! ii, knots ! jj, knots ! kk) = Some (Nr, Nar, Nbr, Ncr)"
  shows "(strided_dot uvals vpn k Na (order * order * order) +
            strided_dot ubar vpn k Nar (getNum3dEnrich (int order))) * J ! (3 * c) +
         (strided_dot uvals vpn k Nb (order * order * order) +
            strided_dot ubar vpn k Nbr (getNum3dEnrich (int order))) * J ! (3 * c + 1) +
         (strided_dot uvals vpn k Nc (order * order * order) +
            strided_dot ubar vpn k Ncr (getNum3dEnrich (int order))) * J ! (3 * c + 2) =
         uderiv ! (3 * vpn * (ii + order * jj + order * order * kk) + 3 * k + c)"
proof -
  let ?n = "getNum3dEnrich (int order)"
  let ?m = "3 * order * order * order"
  let ?x = "lsq ?m ?n A (B ! k)"
  obtain wvals rows where wv: "reconWvals3D order = Some wvals" and len: "length rows = order * order * order"
    and rows: "\<forall>s < order * order * order. reconKnot3D vpn order rorder knots interp interp_ref wvals Xpts uvals uderiv
        (s mod order) (s div order mod order) (s div order div order) = Some (rows ! s)"
    and AB: "(A, B) = reconColumns vpn ?n rows"
    using reconSystem3D_Some[OF sys] by metis
  have lens: "\<forall>r \<in> set rows. length (fst r) = vpn \<and> (\<forall>k < vpn. length (fst r ! k) = 3) \<and>
                  length (snd r) = ?n \<and> (\<forall>i < ?n. length (snd r ! i) = 3)"
    using rows reconKnot3D_Some len by (metis in_set_conv_nth)
  have lenB: "length B = vpn" using reconColumns_lengths(1)[OF lens] AB by (metis snd_conv)
  have ub: "ubar = reconSolve lsq vpn ?m ?n (A, B)" using rec sys by (simp add: computeElemRecon3D_def)
  have sd: "strided_dot ubar vpn k M ?n = strided_dot ?x 1 0 M ?n" for M
    by (rule strided_dot_cong) (simp add: ub reconSolve_nth idx(4) lenB)
  have "0 < wvals ! ii" "0 < wvals ! jj" "0 < wvals ! kk" using reconWvals3D_pos[OF wv] idx by auto
  then have w: "wvals ! ii * wvals ! jj * wvals ! kk \<noteq> 0" by simp
  have "0 = colmajor_mult ?m ?n A ?x ! (3 * (ii + order * jj + order * order * kk) + c)
              - B ! k ! (3 * (ii + order * jj + order * order * kk) + c)"
    using exact idx(4) by simp
  also have "\<dots> = wvals ! ii * wvals ! jj * wvals ! kk *
           ((strided_dot uvals vpn k Na (order * order * order) + strided_dot ?x 1 0 Nar ?n) * J ! (3 * c) +
            (strided_dot uvals vpn k Nb (order * order * order) + strided_dot ?x 1 0 Nbr ?n) * J ! (3 * c + 1) +
            (strided_dot uvals vpn k Nc (order * order * order) + strided_dot ?x 1 0 Ncr ?n) * J ! (3 * c + 2)
            - uderiv ! (3 * vpn * (ii + order * jj + order * order * kk) + 3 * k + c))"
    by (rule reconSystem3D_residual[OF sys wv idx ref jac crs enr])
  finally show ?thesis using w by (simp add: sd)
qed

theorem computeElemRecon3D_reproduces_witness:
  "\<exists>A B ubar.
     reconSystem3D 1 2 3 [-1, 1] (\<lambda>_. (replicate 8 (1/8), replicate 8 0, replicate 8 0, replicate 8 0))
       (\<lambda>(x, y, z). (replicate 27 0, replicate 27 x, replicate 27 y, replicate 27 z))
       (replicate 81 1) (replicate 8 5) (replicate 24 0) = Some (A, B) \<and>
     computeElemRecon3D (\<lambda>m n A b. map (\<lambda>i. \<Sum>r\<leftarrow>[0..<m]. A ! (m * i + r) * b ! r) [0..<n]) 1 2 3 [-1, 1]
       (\<lambda>_. (replicate 8 (1/8), replicate 8 0, replicate 8 0, replicate 8 0))
       (\<lambda>(x, y, z). (replicate 27 0, replicate 27 x, replicate 27 y, replicate 27 z))
       (replicate 81 1) (replicate 8 5) (replicate 24 0) = Some ubar \<and>
     (strided_dot (replicate 8 5) 1 0 (replicate 8 0) 8 +
        strided_dot ubar 1 0 (fst (snd (eval2ndEnrichmentFuncs3D_d (1, -1, 1)))) 9)
        * fst (snd (computeJacobianTrans3D (replicate 81 1) (replicate 27 1) (replicate 27 (-1)) (replicate 27 1) 27)) ! 6 +
     (strided_dot (replicate 8 5) 1 0 (replicate 8 0) 8 +
        strided_dot ubar 1 0 (fst (snd (snd (eval2ndEnrichmentFuncs3D_d (1, -1, 1))))) 9)
        * fst (snd (computeJacobianTrans3D (replicate 81 1) (replicate 27 1) (replicate 27 (-1)) (replicate 27 1) 27)) ! 7 +
     (strided_dot (replicate 8 5) 1 0 (replicate 8 0) 8 +
        strided_dot ubar 1 0 (snd (snd (snd (eval2ndEnrichmentFuncs3D_d (1, -1, 1))))) 9)
        * fst (snd (computeJacobianTrans3D (replicate 81 1) (replicate 27 1) (replicate 27 (-1)) (replicate 27 1) 27)) ! 8 =
     replicate 24 0 ! 17"
proof -
  let ?lsq = "\<lambda>m n A b. map (\<lambda>i. \<Sum>r\<leftarrow>[0..<m]. A ! (m * i + r) * b ! r) [0..<n] :: real list"
  let ?I = "\<lambda>_ :: pt3. (replicate 8 (1/8), replicate 8 0, replicate 8 0, replicate 8 (0::real))"
  let ?R = "\<lambda>(x, y, z). (replicate 27 0, replicate 27 x, replicate 27 y, replicate 27 (z::real))"
  have z: "(\<Sum>r\<leftarrow>[0..<24]. A ! (24 * i + r) * replicate 24 (0::real) ! r) = 0" for A i
    by (rule sum_list_upt_zero) simp
  obtain A B where sys: "reconSystem3D 1 2 3 [-1, 1] ?I ?R (replicate 81 1) (replicate 8 5) (replicate 24 0) = Some (A, B)"
    using reconSystem3D_defined by (metis option.exhaust surj_pair)
  have B0: "B ! 0 = replicate 24 0"
    using reconSystem3D_const_rhs[OF sys, where a = "\<lambda>_. 5" and k = 0]
    by (simp add: knot_basis_ok3D_def sum_list_upt_zero)
  have exact: "\<forall>k < 1. colmajor_mult (3 * 2 * 2 * 2) (getNum3dEnrich (int 2)) A
                   (?lsq (3 * 2 * 2 * 2) (getNum3dEnrich (int 2)) A (B ! k)) = B ! k"
    using B0 by (simp add: z map_replicate_const colmajor_mult_zero)
  obtain ubar where rec: "computeElemRecon3D ?lsq 1 2 3 [-1, 1] ?I ?R (replicate 81 1) (replicate 8 5) (replicate 24 0) = Some ubar"
    using sys by (simp add: computeElemRecon3D_def)
  have "(strided_dot (replicate 8 5) 1 0 (replicate 8 0) (2 * 2 * 2) +
        strided_dot ubar 1 0 (fst (snd (eval2ndEnrichmentFuncs3D_d (1, -1, 1)))) (getNum3dEnrich (int 2)))
        * fst (snd (computeJacobianTrans3D (replicate 81 1) (replicate 27 1) (replicate 27 (-1)) (replicate 27 1) (3 * 3 * 3))) ! (3 * 2) +
     (strided_dot (replicate 8 5) 1 0 (replicate 8 0) (2 * 2 * 2) +
        strided_dot ubar 1 0 (fst (snd (snd (eval2ndEnrichmentFuncs3D_d (1, -1, 1))))) (getNum3dEnrich (int 2)))
        * fst (snd (computeJacobianTrans3D (replicate 81 1) (replicate 27 1) (replicate 27 (-1)) (replicate 27 1) (3 * 3 * 3))) ! (3 * 2 + 1) +
     (strided_dot (replicate 8 5) 1 0 (replicate 8 0) (2 * 2 * 2) +
        strided_dot ubar 1 0 (snd (snd (snd (eval2ndEnrichmentFuncs3D_d (1, -1, 1))))) (getNum3dEnrich (int 2)))
        * fst (snd (computeJacobianTrans3D (replicate 81 1) (replicate 27 1) (replicate 27 (-1)) (replicate 27 1) (3 * 3 * 3))) ! (3 * 2 + 2) =
     replicate 24 0 ! (3 * 1 * (1 + 2 * 0 + 2 * 2 * 1) + 3 * 0 + 2)"
    by (rule computeElemRecon3D_reproduces[OF sys exact rec, where ii = 1 and jj = 0 and kk = 1 and k = 0 and c = 2,
          where Nf = "replicate 27 0" and Naf = "replicate 27 1" and Nbf = "replicate 27 (-1)" and Ncf = "replicate 27 1"
            and N = "replicate 8 (1/8)"
            and Xd = "fst (computeJacobianTrans3D (replicate 81 1) (replicate 27 1) (replicate 27 (-1)) (replicate 27 1) (3 * 3 * 3))"
            and h = "snd (snd (computeJacobianTrans3D (replicate 81 1) (replicate 27 1) (replicate 27 (-1)) (replicate 27 1) (3 * 3 * 3)))"
            and Nr = "fst (eval2ndEnrichmentFuncs3D_d (1, -1, 1))"])
       (simp_all add: enrichDeriv3D_def)
  then show ?thesis using sys rec by (simp add: getNum3dEnrich_def)
qed

text \<open>Null case (spec section 8, property 3): for a field that is constant on the
  element and has zero prescribed derivatives, the right-hand sides vanish and any
  linear least-squares solver returns zero enrichment coefficients.
\<close>

theorem computeElemRecon3D_constant_zero:
  assumes ord: "order = 2 \<or> order = 3"
    and const: "\<forall>i < order * order * order. \<forall>k < vpn. uvals ! (vpn * i + k) = a k"
    and zero: "\<forall>j < 3 * vpn * (order * order * order). uderiv ! j = 0"
    and basis: "\<forall>ii < order. \<forall>jj < order. \<forall>kk < order. knot_basis_ok3D order knots interp ii jj kk"
    and lin: "\<forall>A. lsq (3 * order * order * order) (getNum3dEnrich (int order)) A (replicate (3 * order * order * order) 0)
                 = replicate (getNum3dEnrich (int order)) 0"
  shows "computeElemRecon3D lsq vpn order rorder knots interp interp_ref Xpts uvals uderiv =
           Some (replicate (getNum3dEnrich (int order) * vpn) 0)"
proof -
  let ?n = "getNum3dEnrich (int order)"
  let ?m = "3 * order * order * order"
  obtain A B where sys: "reconSystem3D vpn order rorder knots interp interp_ref Xpts uvals uderiv = Some (A, B)"
    using reconSystem3D_defined ord by (metis option.exhaust surj_pair)
  have lenB: "length B = vpn"
  proof -
    obtain wvals rows where "length rows = order * order * order"
      and rows: "\<forall>s < order * order * order. reconKnot3D vpn order rorder knots interp interp_ref wvals Xpts uvals uderiv
        (s mod order) (s div order mod order) (s div order div order) = Some (rows ! s)"
      and AB: "(A, B) = reconColumns vpn ?n rows"
      using reconSystem3D_Some[OF sys] by metis
    then show ?thesis by (simp add: reconColumns_def)
  qed
  have X: "lsq ?m ?n A (B ! k) = replicate ?n 0" if "k < vpn" for k
    using reconSystem3D_const_rhs[OF sys const zero basis that] lin by simp
  have "reconSolve lsq vpn ?m ?n (A, B) = replicate (?n * vpn) 0"
  proof (rule nth_equalityI)
    show "length (reconSolve lsq vpn ?m ?n (A, B)) = length (replicate (?n * vpn) 0)"
      by (simp add: length_reconSolve)
  next
    fix t assume "t < length (reconSolve lsq vpn ?m ?n (A, B))"
    then have t: "t < ?n * vpn" by (simp add: length_reconSolve)
    then have v: "0 < vpn" by (cases vpn) auto
    have i: "t div vpn < ?n" using t v by (simp add: div_less_iff_less_mult mult.commute)
    have tv: "t = vpn * (t div vpn) + t mod vpn" by simp
    have "reconSolve lsq vpn ?m ?n (A, B) ! t = lsq ?m ?n A (B ! (t mod vpn)) ! (t div vpn)"
      by (subst tv, rule reconSolve_nth) (use i v lenB in simp_all)
    then show "reconSolve lsq vpn ?m ?n (A, B) ! t = replicate (?n * vpn) 0 ! t"
      using X[of "t mod vpn"] v i t by simp
  qed
  then show ?thesis using sys by (simp add: computeElemRecon3D_def)
qed

theorem computeElemRecon3D_constant_zero_witness:
  "computeElemRecon3D (\<lambda>m n A b. map (\<lambda>i. \<Sum>r\<leftarrow>[0..<m]. A ! (m * i + r) * b ! r) [0..<n]) 1 2 3 [-1, 1]
      (\<lambda>_. (replicate 8 (1/8), replicate 8 0, replicate 8 0, replicate 8 0))
      (\<lambda>(x, y, z). (replicate 27 0, replicate 27 x, replicate 27 y, replicate 27 z))
      (replicate 81 1) (replicate 8 5) (replicate 24 0) = Some (replicate 9 0)"
proof -
  have z: "(\<Sum>r\<leftarrow>[0..<24]. A ! (24 * i + r) * replicate 24 (0::real) ! r) = 0" for A i
    by (rule sum_list_upt_zero) simp
  have "computeElemRecon3D (\<lambda>m n A b. map (\<lambda>i. \<Sum>r\<leftarrow>[0..<m]. A ! (m * i + r) * b ! r) [0..<n]) 1 2 3 [-1, 1]
      (\<lambda>_. (replicate 8 (1/8), replicate 8 0, replicate 8 0, replicate 8 0))
      (\<lambda>(x, y, z). (replicate 27 0, replicate 27 x, replicate 27 y, replicate 27 z))
      (replicate 81 1) (replicate 8 5) (replicate 24 0) = Some (replicate (getNum3dEnrich (int 2) * 1) 0)"
  proof (rule computeElemRecon3D_constant_zero[where a = "\<lambda>_. 5"])
    show "\<forall>ii<2. \<forall>jj<2. \<forall>kk<2. knot_basis_ok3D 2 [-1, 1]
            (\<lambda>_. (replicate 8 (1/8), replicate 8 0, replicate 8 0, replicate 8 0)) ii jj kk"
      by (simp add: knot_basis_ok3D_def sum_list_upt_zero)
  qed (simp_all add: z map_replicate_const)
  then show ?thesis by (simp add: getNum3dEnrich_def)
qed

text \<open>C4. Orders without a 3D enrichment basis: \<open>computeElemRecon3D\<close> is defined exactly
  for orders 2 and 3; for any other order the weights and the enrichment derivatives
  are read uninitialised.
\<close>

theorem computeElemRecon3D_undefined_orders:
  "computeElemRecon3D lsq vpn order rorder knots interp interp_ref Xpts uvals uderiv = None \<longleftrightarrow>
   order \<noteq> 2 \<and> order \<noteq> 3"
  unfolding computeElemRecon3D_def option.map_disc_iff
  using reconSystem3D_defined[of vpn order rorder knots interp interp_ref Xpts uvals uderiv] by blast

end
