(* ===== verification/TriHash.thy ===== *)
theory TriHash
  imports Prelude
begin

text \<open>
  The triangle store of \<open>TMRTriangularize\<close> (\<open>src/src/TMRTriangularize.c\<close> lines
  926--1242): the doubly linked list of triangles and the hash table from directed
  edges to the list node of the triangle that owns the edge.

  \<^item> A \<open>TMRTriangle\<close> is the record \<open>tri\<close> (the three point numbers, the tag and the
    status the code reads and writes).  A list node \<open>TriListNode\<close> is named by a
    number; the list is the sequence of (node, triangle) pairs in list order, and
    \<open>tm_next\<close> is the next fresh node (the \<open>new TriListNode()\<close> of \<open>addTriangle\<close>).
  \<^item> The bucket array is a list of chains; a chain is the list of
    \<open>EdgeHashNode\<close> entries \<open>(u, v, tri_node)\<close> in chain order.  The hash
    \<open>TMRIntegerPairHash\<close> lives in a header outside the sources and is a parameter
    \<open>hash\<close>; the bucket of an edge is \<open>hash u v % num_buckets\<close>.
  \<^item> \<open>addTriangle\<close> appends the triangle to the list, records it in
    \<open>pts_to_tris\<close>, doubles the bucket array when there are more than ten entries per
    bucket (re-linking every entry, in order, at the end of its new chain), and
    inserts its three directed edges; an edge that is already present is
    overwritten and reported as a failure.  \<open>deleteTriangle\<close> removes the three
    edges, marks the triangle the first edge found points to as \<open>DELETE_ME\<close>, and
    reports a failure for every edge not found.  \<open>completeMe\<close> looks an edge up.
    \<open>deleteTrianglesFromList\<close> unlinks the marked triangles.

  The abstraction of the table is the finite map \<open>edge_map\<close> from edges to list
  nodes.  Under the invariant \<open>hash_inv\<close> (every entry sits in the bucket of its
  hash, no edge twice in a chain, at least one bucket) and the count
  \<open>num_hash_nodes\<close>, the lemmas show that lookup, insertion, deletion and the
  rehash implement the map operations, the way the map specifications of the
  HOL data-structure library state them.
\<close>

datatype tri_status = NO_STATUS | WAITING | ACTIVE | ACCEPTED | DELETE_ME

record tri =
  tri_u :: u32
  tri_v :: u32
  tri_w :: u32
  tri_tag :: u32
  tri_status :: tri_status

type_synonym hash_fn = "u32 \<Rightarrow> u32 \<Rightarrow> u32"
type_synonym chain = "(u32 \<times> u32 \<times> nat) list"

record tri_mesh =
  tm_list :: "(nat \<times> tri) list"
  tm_next :: nat
  tm_buckets :: "chain list"
  tm_num_hash_nodes :: nat
  tm_num_triangles :: int
  tm_pts_to_tris :: "u32 \<Rightarrow> nat option"

subsection \<open>Chains of the hash table\<close>

definition bucketOf :: "hash_fn \<Rightarrow> nat \<Rightarrow> u32 \<Rightarrow> u32 \<Rightarrow> nat" where
  "bucketOf hash nb u v = unat (hash u v) mod nb"

text \<open>
  Insertion into one chain: an empty bucket gets a new node; otherwise the scan
  overwrites the node of the same edge (and reports it) or appends a node at the
  end of the chain.
\<close>

fun chain_insert :: "u32 \<Rightarrow> u32 \<Rightarrow> nat \<Rightarrow> chain \<Rightarrow> chain \<times> bool" where
  "chain_insert u v t [] = ([(u, v, t)], False)"
| "chain_insert u v t ((a, b, s) # ns) =
     (if a = u \<and> b = v then ((a, b, t) # ns, True)
      else (let (ns', f) = chain_insert u v t ns in ((a, b, s) # ns', f)))"

fun chain_delete :: "u32 \<Rightarrow> u32 \<Rightarrow> chain \<Rightarrow> chain \<times> nat option" where
  "chain_delete u v [] = ([], None)"
| "chain_delete u v ((a, b, s) # ns) =
     (if u = a \<and> v = b then (ns, Some s)
      else (let (ns', r) = chain_delete u v ns in ((a, b, s) # ns', r)))"

fun chain_lookup :: "u32 \<Rightarrow> u32 \<Rightarrow> chain \<Rightarrow> nat option" where
  "chain_lookup u v [] = None"
| "chain_lookup u v ((a, b, s) # ns) = (if a = u \<and> b = v then Some s else chain_lookup u v ns)"

subsection \<open>Operations on the table\<close>

definition rehash :: "hash_fn \<Rightarrow> chain list \<Rightarrow> chain list" where
  "rehash hash bs =
     (let nb = 2 * length bs
      in foldl (\<lambda>nbs (u, v, t). let b = bucketOf hash nb u v in nbs[b := nbs ! b @ [(u, v, t)]])
           (replicate nb []) (concat bs))"

definition hashInsert :: "hash_fn \<Rightarrow> u32 \<Rightarrow> u32 \<Rightarrow> nat \<Rightarrow> tri_mesh \<Rightarrow> bool \<times> tri_mesh" where
  "hashInsert hash u v t st =
     (let bs = tm_buckets st;
          b = bucketOf hash (length bs) u v;
          (ch, found) = chain_insert u v t (bs ! b)
      in (\<not> found, st\<lparr>tm_buckets := bs[b := ch],
                      tm_num_hash_nodes := (if found then tm_num_hash_nodes st else tm_num_hash_nodes st + 1)\<rparr>))"

definition hashDelete :: "hash_fn \<Rightarrow> u32 \<Rightarrow> u32 \<Rightarrow> tri_mesh \<Rightarrow> nat option \<times> tri_mesh" where
  "hashDelete hash u v st =
     (let bs = tm_buckets st;
          b = bucketOf hash (length bs) u v;
          (ch, r) = chain_delete u v (bs ! b)
      in (r, st\<lparr>tm_buckets := bs[b := ch],
                 tm_num_hash_nodes := (if r = None then tm_num_hash_nodes st else tm_num_hash_nodes st - 1)\<rparr>))"

definition completeMe :: "hash_fn \<Rightarrow> u32 \<Rightarrow> u32 \<Rightarrow> tri_mesh \<Rightarrow> nat option" where
  "completeMe hash u v st =
     (let bs = tm_buckets st in chain_lookup u v (bs ! bucketOf hash (length bs) u v))"

definition tri_edges :: "tri \<Rightarrow> (u32 \<times> u32) list" where
  "tri_edges t = [(tri_u t, tri_v t), (tri_v t, tri_w t), (tri_w t, tri_u t)]"

definition addTriangle :: "hash_fn \<Rightarrow> tri \<Rightarrow> tri_mesh \<Rightarrow> bool \<times> tri_mesh" where
  "addTriangle hash t st =
     (let nd = tm_next st;
          st1 = st\<lparr>tm_list := tm_list st @ [(nd, t\<lparr>tri_tag := 0, tri_status := NO_STATUS\<rparr>)],
                   tm_next := nd + 1,
                   tm_pts_to_tris := (tm_pts_to_tris st)(tri_u t \<mapsto> nd, tri_v t \<mapsto> nd, tri_w t \<mapsto> nd),
                   tm_num_triangles := tm_num_triangles st + 1\<rparr>;
          st2 = (if 10 * length (tm_buckets st1) < tm_num_hash_nodes st1
                 then st1\<lparr>tm_buckets := rehash hash (tm_buckets st1)\<rparr> else st1)
      in foldl (\<lambda>(ok, s) (u, v). let (ok', s') = hashInsert hash u v nd s in (ok \<and> ok', s'))
           (True, st2) (tri_edges t))"

definition markDeleted :: "nat \<Rightarrow> (nat \<times> tri) list \<Rightarrow> (nat \<times> tri) list" where
  "markDeleted nd ts = map (\<lambda>(i, t). if i = nd then (i, t\<lparr>tri_status := DELETE_ME\<rparr>) else (i, t)) ts"

text \<open>
  One step of the edge loop of \<open>deleteTriangle\<close>: the state is the flag \<open>first\<close>, the
  running \<open>success\<close> and the mesh.
\<close>

definition deleteEdge :: "hash_fn \<Rightarrow> bool \<times> bool \<times> tri_mesh \<Rightarrow> u32 \<times> u32 \<Rightarrow> bool \<times> bool \<times> tri_mesh" where
  "deleteEdge hash fs e =
     (case fs of (first, ok, st) \<Rightarrow> case e of (u, v) \<Rightarrow>
        (case hashDelete hash u v st of
           (None, st') \<Rightarrow> (first, False, st')
         | (Some nd, st') \<Rightarrow>
             if first then (False, ok, st'\<lparr>tm_num_triangles := tm_num_triangles st' - 1,
                                           tm_list := markDeleted nd (tm_list st')\<rparr>)
             else (False, ok, st')))"

definition deleteTriangle :: "hash_fn \<Rightarrow> tri \<Rightarrow> tri_mesh \<Rightarrow> bool \<times> tri_mesh" where
  "deleteTriangle hash t st =
     (case foldl (deleteEdge hash) (True, True, st) (tri_edges t) of (first, ok, st') \<Rightarrow> (ok, st'))"

definition deleteTrianglesFromList :: "tri_mesh \<Rightarrow> tri_mesh" where
  "deleteTrianglesFromList st =
     st\<lparr>tm_list := filter (\<lambda>(i, t). tri_status t \<noteq> DELETE_ME) (tm_list st)\<rparr>"

text \<open>
  The table as \<open>initialize\<close> leaves it before the first triangle (lines 488--502):
  100 empty buckets, no hash nodes, an empty triangle list.  \<open>mesh_reach\<close> collects
  the states reachable from there by the three operations that change the store.
\<close>

definition initMesh :: tri_mesh where
  "initMesh = \<lparr>tm_list = [], tm_next = 0, tm_buckets = replicate 100 [], tm_num_hash_nodes = 0,
               tm_num_triangles = 0, tm_pts_to_tris = Map.empty\<rparr>"

inductive mesh_reach :: "hash_fn \<Rightarrow> tri_mesh \<Rightarrow> bool" for hash where
  init: "mesh_reach hash initMesh"
| add: "mesh_reach hash st \<Longrightarrow> addTriangle hash t st = (ok, st') \<Longrightarrow> mesh_reach hash st'"
| del: "mesh_reach hash st \<Longrightarrow> deleteTriangle hash t st = (ok, st') \<Longrightarrow> mesh_reach hash st'"
| purge: "mesh_reach hash st \<Longrightarrow> mesh_reach hash (deleteTrianglesFromList st)"

subsection \<open>Abstraction and invariant\<close>

definition ekeys :: "chain \<Rightarrow> (u32 \<times> u32) list" where
  "ekeys ch = map (\<lambda>(u, v, t). (u, v)) ch"

definition emap :: "chain \<Rightarrow> u32 \<times> u32 \<Rightarrow> nat option" where
  "emap ch = map_of (map (\<lambda>(u, v, t). ((u, v), t)) ch)"

definition edge_map :: "chain list \<Rightarrow> u32 \<times> u32 \<Rightarrow> nat option" where
  "edge_map bs = emap (concat bs)"

definition hash_inv :: "hash_fn \<Rightarrow> chain list \<Rightarrow> bool" where
  "hash_inv hash bs \<longleftrightarrow> bs \<noteq> [] \<and>
     (\<forall>i < length bs. distinct (ekeys (bs ! i)) \<and>
        (\<forall>(u, v, t) \<in> set (bs ! i). bucketOf hash (length bs) u v = i))"

definition mesh_inv :: "hash_fn \<Rightarrow> tri_mesh \<Rightarrow> bool" where
  "mesh_inv hash st \<longleftrightarrow> hash_inv hash (tm_buckets st) \<and>
     tm_num_hash_nodes st = length (concat (tm_buckets st))"

subsection \<open>Chains\<close>

lemma emap_Cons [simp]: "emap ((a, b, s) # ns) = (emap ns)((a, b) \<mapsto> s)"
  by (simp add: emap_def)

lemma emap_Nil [simp]: "emap [] = Map.empty"
  by (simp add: emap_def)

lemma ekeys_Cons [simp]: "ekeys ((a, b, s) # ns) = (a, b) # ekeys ns"
  by (simp add: ekeys_def)

lemma ekeys_Nil [simp]: "ekeys [] = []"
  by (simp add: ekeys_def)

lemma emap_None_iff: "emap ch k = None \<longleftrightarrow> k \<notin> set (ekeys ch)"
  by (induction ch) (auto simp: ekeys_def emap_def)
lemma chain_insert_props:
  "emap (fst (chain_insert u v t ch)) = (emap ch)((u, v) \<mapsto> t) \<and>
   snd (chain_insert u v t ch) = ((u, v) \<in> set (ekeys ch)) \<and>
   set (ekeys (fst (chain_insert u v t ch))) = insert (u, v) (set (ekeys ch)) \<and>
   set (fst (chain_insert u v t ch)) \<subseteq> insert (u, v, t) (set ch) \<and>
   length (fst (chain_insert u v t ch)) = (if (u, v) \<in> set (ekeys ch) then length ch else Suc (length ch)) \<and>
   (distinct (ekeys ch) \<longrightarrow> distinct (ekeys (fst (chain_insert u v t ch))))"
  by (induction u v t ch rule: chain_insert.induct) (auto simp: fun_upd_twist split: prod.splits)

lemma chain_delete_ekeys: "ekeys (fst (chain_delete u v ch)) = remove1 (u, v) (ekeys ch)"
  by (induction u v ch rule: chain_delete.induct) (auto split: prod.splits)

lemma chain_delete_result: "snd (chain_delete u v ch) = emap ch (u, v)"
  by (induction u v ch rule: chain_delete.induct) (auto split: prod.splits)

lemma chain_delete_subset: "set (fst (chain_delete u v ch)) \<subseteq> set ch"
  by (induction u v ch rule: chain_delete.induct) (auto split: prod.splits)

lemma chain_delete_emap:
  "distinct (ekeys ch) \<Longrightarrow> emap (fst (chain_delete u v ch)) = (emap ch)((u, v) := None)"
proof (induction u v ch rule: chain_delete.induct)
  case (2 u v a b s ns)
  have "emap ns (a, b) = None" using 2(2) by (simp add: emap_None_iff)
  then show ?case using 2 by (auto simp: fun_upd_twist fun_eq_iff split: prod.splits)
qed simp

lemma length_chain_delete:
  "length (fst (chain_delete u v ch)) = (if (u, v) \<in> set (ekeys ch) then length ch - 1 else length ch)"
proof -
  have "length (fst (chain_delete u v ch)) = length (ekeys (fst (chain_delete u v ch)))" by (simp add: ekeys_def)
  also have "\<dots> = length (remove1 (u, v) (ekeys ch))" by (simp only: chain_delete_ekeys)
  finally show ?thesis by (simp add: length_remove1 ekeys_def)
qed

lemma chain_lookup_emap: "chain_lookup u v ch = emap ch (u, v)"
  by (induction u v ch rule: chain_lookup.induct) auto

subsection \<open>The bucket array\<close>

lemma emap_append: "emap (xs @ ys) k = (case emap xs k of None \<Rightarrow> emap ys k | Some t \<Rightarrow> Some t)"
  by (simp add: emap_def map_add_def split: option.splits)

lemma ekeys_concat: "ekeys (concat cs) = concat (map ekeys cs)"
  by (induction cs) (simp_all add: ekeys_def)

lemma emap_concat_bucket:
  "b < length bs \<Longrightarrow> (\<forall>i < length bs. i \<noteq> b \<longrightarrow> k \<notin> set (ekeys (bs ! i))) \<Longrightarrow>
   emap (concat bs) k = emap (bs ! b) k"
proof (induction bs arbitrary: b)
  case (Cons c cs)
  show ?case
  proof (cases b)
    case 0
    have "k \<notin> set (ekeys (cs ! i))" if "i < length cs" for i
      using Cons.prems 0 that by (metis Suc_less_eq length_Cons nat.distinct(1) nth_Cons_Suc)
    then have "k \<notin> set (ekeys (concat cs))"
      by (auto simp: ekeys_concat) (metis in_set_conv_nth)
    then have "emap (concat cs) k = None" by (simp add: emap_None_iff)
    then show ?thesis using 0 by (simp add: emap_append split: option.splits)
  next
    case (Suc b')
    have "k \<notin> set (ekeys c)" using Cons.prems(2) Suc by (metis nth_Cons_0 length_Cons zero_less_Suc nat.distinct(1))
    moreover have "emap (concat cs) k = emap (cs ! b') k"
      using Cons.prems Suc by (intro Cons.IH) auto
    ultimately show ?thesis using Suc by (simp add: emap_append emap_None_iff[symmetric])
  qed
qed simp

lemma hash_inv_key_bucket:
  "hash_inv hash bs \<Longrightarrow> i < length bs \<Longrightarrow> (u, v) \<in> set (ekeys (bs ! i)) \<Longrightarrow>
   bucketOf hash (length bs) u v = i"
  by (auto simp: hash_inv_def ekeys_def)

lemma bucketOf_less: "bs \<noteq> [] \<Longrightarrow> bucketOf hash (length bs) u v < length bs"
  by (simp add: bucketOf_def)

lemma edge_map_bucket:
  assumes "hash_inv hash bs"
  shows "edge_map bs (u, v) = emap (bs ! bucketOf hash (length bs) u v) (u, v)"
  unfolding edge_map_def
proof (rule emap_concat_bucket)
  show "bucketOf hash (length bs) u v < length bs" using assms by (simp add: hash_inv_def bucketOf_less)
  show "\<forall>i<length bs. i \<noteq> bucketOf hash (length bs) u v \<longrightarrow> (u, v) \<notin> set (ekeys (bs ! i))"
    using hash_inv_key_bucket[OF assms] by blast
qed

lemma hash_inv_update:
  assumes "hash_inv hash bs" "b < length bs" "distinct (ekeys ch)"
    "\<forall>(u, v, t) \<in> set ch. bucketOf hash (length bs) u v = b"
  shows "hash_inv hash (bs[b := ch])"
  using assms by (auto simp: hash_inv_def nth_list_update)

lemma edge_map_update:
  assumes "hash_inv hash bs" "b < length bs" "distinct (ekeys ch)"
    "\<forall>(u, v, t) \<in> set ch. bucketOf hash (length bs) u v = b"
  shows "edge_map (bs[b := ch]) (u, v) =
           (if bucketOf hash (length bs) u v = b then emap ch (u, v) else edge_map bs (u, v))"
  using edge_map_bucket[OF hash_inv_update[OF assms], of u v] edge_map_bucket[OF assms(1), of u v] assms(2)
  by simp

lemma length_concat_update:
  "b < length bs \<Longrightarrow> length (concat (bs[b := ch])) + length (bs ! b) = length (concat bs) + length ch"
  by (induction bs arbitrary: b) (auto split: nat.splits)

subsection \<open>The operations implement a map\<close>

lemma completeMe_edge_map:
  "hash_inv hash (tm_buckets st) \<Longrightarrow> completeMe hash u v st = edge_map (tm_buckets st) (u, v)"
  by (simp add: completeMe_def Let_def chain_lookup_emap edge_map_bucket)

lemma hashInsert_refines:
  assumes inv: "mesh_inv hash st" and ins: "hashInsert hash u v t st = (ok, st')"
  shows "mesh_inv hash st' \<and> edge_map (tm_buckets st') = (edge_map (tm_buckets st))((u, v) \<mapsto> t) \<and>
         ok = (edge_map (tm_buckets st) (u, v) = None) \<and> tm_list st' = tm_list st \<and>
         tm_num_triangles st' = tm_num_triangles st"
proof -
  let ?bs = "tm_buckets st"
  let ?b = "bucketOf hash (length ?bs) u v"
  let ?r = "chain_insert u v t (?bs ! ?b)"
  have hi: "hash_inv hash ?bs" and cnt: "tm_num_hash_nodes st = length (concat ?bs)"
    using inv by (auto simp: mesh_inv_def)
  have b: "?b < length ?bs" using hi by (simp add: hash_inv_def bucketOf_less)
  have dis: "distinct (ekeys (?bs ! ?b))" using hi b by (simp add: hash_inv_def)
  have P: "emap (fst ?r) = (emap (?bs ! ?b))((u, v) \<mapsto> t)" "snd ?r = ((u, v) \<in> set (ekeys (?bs ! ?b)))"
    "set (fst ?r) \<subseteq> insert (u, v, t) (set (?bs ! ?b))"
    "length (fst ?r) = (if (u, v) \<in> set (ekeys (?bs ! ?b)) then length (?bs ! ?b) else Suc (length (?bs ! ?b)))"
    "distinct (ekeys (fst ?r))"
    using chain_insert_props[of u v t "?bs ! ?b"] dis by auto
  have hb: "\<forall>(x, y, s) \<in> set (fst ?r). bucketOf hash (length ?bs) x y = ?b"
  proof clarify
    fix x y s assume "(x, y, s) \<in> set (fst ?r)"
    then have "(x, y, s) = (u, v, t) \<or> (x, y, s) \<in> set (?bs ! ?b)" using P(3) by auto
    then show "bucketOf hash (length ?bs) x y = ?b" using hi b unfolding hash_inv_def by fastforce
  qed
  have st': "st' = st\<lparr>tm_buckets := ?bs[?b := fst ?r],
               tm_num_hash_nodes := (if snd ?r then tm_num_hash_nodes st else tm_num_hash_nodes st + 1)\<rparr>"
     and ok: "ok = (\<not> snd ?r)"
    using ins by (auto simp: hashInsert_def Let_def split: prod.splits)
  have em: "edge_map (?bs[?b := fst ?r]) = (edge_map ?bs)((u, v) \<mapsto> t)"
  proof
    fix k :: "u32 \<times> u32"
    obtain x y where k: "k = (x, y)" by fastforce
    show "edge_map (?bs[?b := fst ?r]) k = ((edge_map ?bs)((u, v) \<mapsto> t)) k"
      using edge_map_update[OF hi b P(5) hb, of x y] edge_map_bucket[OF hi, of x y] P(1) k by auto
  qed
  have "length (concat (?bs[?b := fst ?r])) + length (?bs ! ?b) = length (concat ?bs) + length (fst ?r)"
    using length_concat_update[OF b] .
  then have "tm_num_hash_nodes st' = length (concat (tm_buckets st'))"
    using cnt P(2,4) st' by auto
  moreover have "hash_inv hash (tm_buckets st')" using hash_inv_update[OF hi b P(5) hb] st' by simp
  moreover have "ok = (edge_map ?bs (u, v) = None)"
    using ok P(2) edge_map_bucket[OF hi, of u v] by (simp add: emap_None_iff)
  ultimately show ?thesis using em st' by (simp add: mesh_inv_def)
qed

lemma hashDelete_refines:
  assumes inv: "mesh_inv hash st" and del: "hashDelete hash u v st = (r, st')"
  shows "mesh_inv hash st' \<and> edge_map (tm_buckets st') = (edge_map (tm_buckets st))((u, v) := None) \<and>
         r = edge_map (tm_buckets st) (u, v) \<and> tm_list st' = tm_list st \<and>
         tm_num_triangles st' = tm_num_triangles st"
proof -
  let ?bs = "tm_buckets st"
  let ?b = "bucketOf hash (length ?bs) u v"
  let ?r = "chain_delete u v (?bs ! ?b)"
  have hi: "hash_inv hash ?bs" and cnt: "tm_num_hash_nodes st = length (concat ?bs)"
    using inv by (auto simp: mesh_inv_def)
  have b: "?b < length ?bs" using hi by (simp add: hash_inv_def bucketOf_less)
  have dis: "distinct (ekeys (?bs ! ?b))" using hi b by (simp add: hash_inv_def)
  have dis': "distinct (ekeys (fst ?r))" using chain_delete_ekeys[of u v "?bs ! ?b"] dis by simp
  have hb: "\<forall>(x, y, s) \<in> set (fst ?r). bucketOf hash (length ?bs) x y = ?b"
    using chain_delete_subset[of u v "?bs ! ?b"] hi b unfolding hash_inv_def by fastforce
  have st': "st' = st\<lparr>tm_buckets := ?bs[?b := fst ?r],
               tm_num_hash_nodes := (if snd ?r = None then tm_num_hash_nodes st else tm_num_hash_nodes st - 1)\<rparr>"
     and rr: "r = snd ?r"
    using del by (auto simp: hashDelete_def Let_def split: prod.splits)
  have em: "edge_map (?bs[?b := fst ?r]) = (edge_map ?bs)((u, v) := None)"
  proof
    fix k :: "u32 \<times> u32"
    obtain x y where k: "k = (x, y)" by fastforce
    show "edge_map (?bs[?b := fst ?r]) k = ((edge_map ?bs)((u, v) := None)) k"
      using edge_map_update[OF hi b dis' hb, of x y] edge_map_bucket[OF hi, of x y]
        chain_delete_emap[OF dis, of u v] k by auto
  qed
  have res: "snd ?r = edge_map ?bs (u, v)"
    using chain_delete_result[of u v "?bs ! ?b"] edge_map_bucket[OF hi, of u v] by simp
  have L: "length (concat (?bs[?b := fst ?r])) + length (?bs ! ?b) = length (concat ?bs) + length (fst ?r)"
    using length_concat_update[OF b] .
  have "tm_num_hash_nodes st' = length (concat (tm_buckets st'))"
  proof (cases "(u, v) \<in> set (ekeys (?bs ! ?b))")
    case True
    have "0 < length (?bs ! ?b)" using True by (cases "?bs ! ?b") auto
    moreover have "snd ?r \<noteq> None"
      using True chain_delete_result[of u v "?bs ! ?b"] emap_None_iff[of "?bs ! ?b" "(u, v)"] by simp
    then have "tm_num_hash_nodes st' = tm_num_hash_nodes st - 1" using st' by (simp del: not_None_eq)
    moreover have "length (fst ?r) = length (?bs ! ?b) - 1"
      using True length_chain_delete[of u v "?bs ! ?b"] by simp
    moreover have "length (concat (tm_buckets st')) = length (concat (?bs[?b := fst ?r]))" using st' by simp
    ultimately show ?thesis using L cnt by arith
  next
    case False
    then have "snd ?r = None" "length (fst ?r) = length (?bs ! ?b)"
      using chain_delete_result[of u v "?bs ! ?b"] length_chain_delete[of u v "?bs ! ?b"]
      by (auto simp: emap_None_iff)
    then show ?thesis using L cnt st' by simp
  qed
  moreover have "hash_inv hash (tm_buckets st')" using hash_inv_update[OF hi b dis' hb] st' by simp
  ultimately show ?thesis using em st' rr res by (simp add: mesh_inv_def)
qed

subsection \<open>Rehashing\<close>

lemma mset_concat_update:
  "i < length xs \<Longrightarrow> mset (concat (xs[i := y])) + mset (xs ! i) = mset (concat xs) + mset y"
  by (induction xs arbitrary: i) (auto split: nat.splits)

lemma foldl_distribute:
  assumes "\<forall>e \<in> set xs. f e < length init"
  shows "length (foldl (\<lambda>nbs e. nbs[f e := nbs ! f e @ [e]]) init xs) = length init \<and>
         (\<forall>j < length init. foldl (\<lambda>nbs e. nbs[f e := nbs ! f e @ [e]]) init xs ! j =
                             init ! j @ filter (\<lambda>e. f e = j) xs) \<and>
         mset (concat (foldl (\<lambda>nbs e. nbs[f e := nbs ! f e @ [e]]) init xs)) = mset (concat init) + mset xs"
  using assms
proof (induction xs arbitrary: init rule: rev_induct)
  case (snoc x xs)
  let ?F = "foldl (\<lambda>nbs e. nbs[f e := nbs ! f e @ [e]]) init xs"
  have IH: "length ?F = length init" "\<forall>j < length init. ?F ! j = init ! j @ filter (\<lambda>e. f e = j) xs"
    "mset (concat ?F) = mset (concat init) + mset xs"
    using snoc by auto
  have fx: "f x < length ?F" using snoc.prems IH(1) by simp
  have "mset (concat (?F[f x := ?F ! f x @ [x]])) + mset (?F ! f x) = mset (concat ?F) + mset (?F ! f x @ [x])"
    using mset_concat_update[OF fx] .
  then have "mset (concat (?F[f x := ?F ! f x @ [x]])) = mset (concat init) + mset (xs @ [x])"
    using IH(3) by (simp add: add.assoc add.commute add.left_commute)
  then show ?case using IH fx by (auto simp: nth_list_update)
qed simp

lemma rehash_alt:
  "rehash hash bs = foldl (\<lambda>nbs e. nbs[(case e of (u, v, t) \<Rightarrow> bucketOf hash (2 * length bs) u v) :=
                                         nbs ! (case e of (u, v, t) \<Rightarrow> bucketOf hash (2 * length bs) u v) @ [e]])
                      (replicate (2 * length bs) []) (concat bs)"
  unfolding rehash_def Let_def by (simp add: split_def)

lemma emap_filter_key:
  "(\<forall>t. P (u, v, t)) \<Longrightarrow> (\<forall>e. P e \<longleftrightarrow> Q (fst e, fst (snd e))) \<Longrightarrow> emap (filter P xs) (u, v) = emap xs (u, v)"
  by (induction xs) auto

lemma distinct_ekeys_concat:
  "(\<forall>i < length bs. distinct (ekeys (bs ! i)) \<and> (\<forall>(u, v, t) \<in> set (bs ! i). g u v = i + off)) \<Longrightarrow>
   distinct (ekeys (concat bs))"
proof (induction bs arbitrary: off)
  case (Cons c cs)
  have c: "distinct (ekeys c)" "\<forall>(u, v, t) \<in> set c. g u v = off"
    using Cons.prems by (metis length_Cons nth_Cons_0 zero_less_Suc add_0)+
  have cs: "\<forall>i < length cs. distinct (ekeys (cs ! i)) \<and> (\<forall>(u, v, t) \<in> set (cs ! i). g u v = i + Suc off)"
  proof (intro allI impI)
    fix i assume "i < length cs"
    then have "Suc i < length (c # cs)" by simp
    then show "distinct (ekeys (cs ! i)) \<and> (\<forall>(u, v, t) \<in> set (cs ! i). g u v = i + Suc off)"
      using Cons.prems by fastforce
  qed
  have d: "distinct (ekeys (concat cs))" using Cons.IH[OF cs] .
  have "k \<notin> set (ekeys (concat cs))" if kc: "k \<in> set (ekeys c)" for k
  proof
    assume "k \<in> set (ekeys (concat cs))"
    then obtain x where x: "x \<in> set cs" "k \<in> set (ekeys x)" by (auto simp: ekeys_concat)
    then obtain i where i: "i < length cs" "cs ! i = x" by (metis in_set_conv_nth)
    obtain t where "(fst k, snd k, t) \<in> set (cs ! i)" using x(2) i(2) by (auto simp: ekeys_def)
    note i(1) this
    moreover obtain t' where "(fst k, snd k, t') \<in> set c" using kc by (auto simp: ekeys_def)
    ultimately show False using c(2) cs by fastforce
  qed
  then have "set (ekeys c) \<inter> set (ekeys (concat cs)) = {}" by blast
  moreover have "ekeys (concat (c # cs)) = ekeys c @ ekeys (concat cs)" by (simp add: ekeys_def)
  ultimately show ?case using c(1) d by simp
qed simp

lemma hash_inv_distinct: "hash_inv hash bs \<Longrightarrow> distinct (ekeys (concat bs))"
  by (rule distinct_ekeys_concat[where g = "bucketOf hash (length bs)" and off = 0]) (auto simp: hash_inv_def)

lemma rehash_step:
  assumes hi: "hash_inv hash bs"
  shows "hash_inv hash (rehash hash bs) \<and> length (rehash hash bs) = 2 * length bs \<and>
         edge_map (rehash hash bs) = edge_map bs \<and> length (concat (rehash hash bs)) = length (concat bs)"
proof -
  let ?n = "2 * length bs"
  let ?f = "\<lambda>e. case e of (u, v, t) \<Rightarrow> bucketOf hash ?n u v"
  have n: "0 < ?n" using hi by (simp add: hash_inv_def)
  have fl: "\<forall>e \<in> set (concat bs). ?f e < length (replicate ?n ([] :: chain))"
    using n by (auto simp: bucketOf_def)
  note D = foldl_distribute[OF fl, folded rehash_alt]
  have len: "length (rehash hash bs) = ?n" using D by simp
  have nth: "rehash hash bs ! j = filter (\<lambda>e. ?f e = j) (concat bs)" if "j < ?n" for j
    using D that by simp
  have dis: "distinct (ekeys (concat bs))" using hash_inv_distinct[OF hi] .
  have hi': "hash_inv hash (rehash hash bs)"
    unfolding hash_inv_def
  proof (intro conjI allI impI)
    show "rehash hash bs \<noteq> []" using len n by auto
    fix j assume j: "j < length (rehash hash bs)"
    show "distinct (ekeys (rehash hash bs ! j))"
      using dis j len nth by (simp add: ekeys_def distinct_map_filter)
    show "\<forall>(u, v, t) \<in> set (rehash hash bs ! j). bucketOf hash (length (rehash hash bs)) u v = j"
      using j len nth by auto
  qed
  have em: "edge_map (rehash hash bs) = edge_map bs"
  proof
    fix k :: "u32 \<times> u32"
    obtain u v where k: "k = (u, v)" by fastforce
    have b: "bucketOf hash ?n u v < ?n" using n by (simp add: bucketOf_def)
    have "edge_map (rehash hash bs) (u, v) = emap (filter (\<lambda>e. ?f e = bucketOf hash ?n u v) (concat bs)) (u, v)"
      using edge_map_bucket[OF hi', of u v] len nth[OF b] by simp
    also have "\<dots> = emap (concat bs) (u, v)"
      by (rule emap_filter_key[where Q = "\<lambda>(x, y). bucketOf hash ?n x y = bucketOf hash ?n u v"]) auto
    finally show "edge_map (rehash hash bs) k = edge_map bs k" using k by (simp add: edge_map_def)
  qed
  have "mset (concat (rehash hash bs)) = mset (concat bs)" using D by simp
  then have "length (concat (rehash hash bs)) = length (concat bs)" by (metis size_mset)
  then show ?thesis using hi' len em by simp
qed

subsection \<open>Triangles\<close>

lemma insert_edges:
  assumes "mesh_inv hash st"
    "foldl (\<lambda>(ok, s) (u, v). let (ok', s') = hashInsert hash u v nd s in (ok \<and> ok', s')) (ok0, st) es = (ok, st')"
  shows "mesh_inv hash st' \<and>
         edge_map (tm_buckets st') = (\<lambda>k. if k \<in> set es then Some nd else edge_map (tm_buckets st) k) \<and>
         ok = (ok0 \<and> distinct es \<and> (\<forall>e \<in> set es. edge_map (tm_buckets st) e = None)) \<and>
         tm_list st' = tm_list st \<and> tm_num_triangles st' = tm_num_triangles st"
  using assms
proof (induction es arbitrary: ok0 st)
  case (Cons e es)
  obtain u v where e: "e = (u, v)" by fastforce
  obtain ok1 s1 where ins: "hashInsert hash u v nd st = (ok1, s1)" by fastforce
  note H = hashInsert_refines[OF Cons.prems(1) ins]
  have "foldl (\<lambda>(ok, s) (u, v). let (ok', s') = hashInsert hash u v nd s in (ok \<and> ok', s')) (ok0 \<and> ok1, s1) es = (ok, st')"
    using Cons.prems(2) e ins by simp
  note IH = Cons.IH[OF conjunct1[OF H] this]
  have em1: "edge_map (tm_buckets s1) = (edge_map (tm_buckets st))((u, v) \<mapsto> nd)"
    and l: "tm_list s1 = tm_list st" "tm_num_triangles s1 = tm_num_triangles st"
    and o1: "ok1 = (edge_map (tm_buckets st) (u, v) = None)" using H by simp_all
  note IH' = IH[unfolded em1 l]
  have "(\<forall>x \<in> set es. ((edge_map (tm_buckets st))((u, v) \<mapsto> nd)) x = None) =
        ((u, v) \<notin> set es \<and> (\<forall>x \<in> set es. edge_map (tm_buckets st) x = None))"
    by auto
  then show ?case using IH' o1 e H by (auto simp: fun_eq_iff)
qed simp

lemma delete_edges:
  assumes "mesh_inv hash st" "foldl (deleteEdge hash) (first, ok0, st) es = (first', ok, st')"
  shows "mesh_inv hash st' \<and>
         edge_map (tm_buckets st') = (\<lambda>k. if k \<in> set es then None else edge_map (tm_buckets st) k) \<and>
         ok = (ok0 \<and> distinct es \<and> (\<forall>e \<in> set es. edge_map (tm_buckets st) e \<noteq> None)) \<and>
         first' = (first \<and> find (\<lambda>e. edge_map (tm_buckets st) e \<noteq> None) es = None) \<and>
         (tm_list st', tm_num_triangles st') =
           (case (if first then find (\<lambda>e. edge_map (tm_buckets st) e \<noteq> None) es else None) of
              None \<Rightarrow> (tm_list st, tm_num_triangles st)
            | Some e \<Rightarrow> (markDeleted (the (edge_map (tm_buckets st) e)) (tm_list st), tm_num_triangles st - 1))"
  using assms
proof (induction es arbitrary: first ok0 st)
  case (Cons e es)
  obtain u v where e: "e = (u, v)" by fastforce
  obtain r s1 where del: "hashDelete hash u v st = (r, s1)" by fastforce
  note H = hashDelete_refines[OF Cons.prems(1) del]
  obtain f2 ok2 s2 where step: "deleteEdge hash (first, ok0, st) e = (f2, ok2, s2)" by (metis prod_cases3)
  have s2: "tm_buckets s2 = tm_buckets s1" "tm_num_hash_nodes s2 = tm_num_hash_nodes s1"
    using step e del by (auto simp: deleteEdge_def split: option.splits if_splits)
  have inv2: "mesh_inv hash s2" using H s2 by (simp add: mesh_inv_def)
  have rest: "foldl (deleteEdge hash) (f2, ok2, s2) es = (first', ok, st')" using Cons.prems(2) step by simp
  note IH = Cons.IH[OF inv2 rest]
  show ?case
  proof (cases r)
    case None
    then have fs: "f2 = first" "ok2 = False" "s2 = s1" using step e del by (auto simp: deleteEdge_def)
    have em1: "edge_map (tm_buckets s1) = edge_map (tm_buckets st)"
      using H None by (auto simp: fun_eq_iff)
    note IH' = IH[unfolded fs(3) em1]
    have emn: "edge_map (tm_buckets st) (u, v) = None" using H None by simp
    have l: "tm_list s1 = tm_list st" "tm_num_triangles s1 = tm_num_triangles st" using H by simp_all
    note IH'' = IH'[unfolded l]
    show ?thesis using IH'' emn fs e H by (auto simp: fun_eq_iff)
  next
    case (Some nd)
    then have st2: "f2 = False" "ok2 = ok0"
      "tm_list s2 = (if first then markDeleted nd (tm_list s1) else tm_list s1)"
      "tm_num_triangles s2 = (if first then tm_num_triangles s1 - 1 else tm_num_triangles s1)"
      using step e del by (auto simp: deleteEdge_def split: if_splits)
    show ?thesis using IH H Some s2 st2 e by (auto simp: fun_eq_iff)
  qed
qed simp

lemma addTriangle_step:
  assumes "mesh_inv hash st" "addTriangle hash t st = (ok, st')"
  shows "mesh_inv hash st' \<and>
         edge_map (tm_buckets st') =
           (\<lambda>k. if k \<in> set (tri_edges t) then Some (tm_next st) else edge_map (tm_buckets st) k) \<and>
         ok = (distinct (tri_edges t) \<and> (\<forall>e \<in> set (tri_edges t). edge_map (tm_buckets st) e = None)) \<and>
         tm_list st' = tm_list st @ [(tm_next st, t\<lparr>tri_tag := 0, tri_status := NO_STATUS\<rparr>)] \<and>
         tm_next st' = tm_next st + 1 \<and> tm_num_triangles st' = tm_num_triangles st + 1"
proof -
  let ?nd = "tm_next st"
  define st1 where "st1 = st\<lparr>tm_list := tm_list st @ [(?nd, t\<lparr>tri_tag := 0, tri_status := NO_STATUS\<rparr>)],
                   tm_next := ?nd + 1,
                   tm_pts_to_tris := (tm_pts_to_tris st)(tri_u t \<mapsto> ?nd, tri_v t \<mapsto> ?nd, tri_w t \<mapsto> ?nd),
                   tm_num_triangles := tm_num_triangles st + 1\<rparr>"
  define st2 where "st2 = (if 10 * length (tm_buckets st1) < tm_num_hash_nodes st1
                 then st1\<lparr>tm_buckets := rehash hash (tm_buckets st1)\<rparr> else st1)"
  have hi: "hash_inv hash (tm_buckets st)" and cnt: "tm_num_hash_nodes st = length (concat (tm_buckets st))"
    using assms(1) by (auto simp: mesh_inv_def)
  have inv2: "mesh_inv hash st2" and em2: "edge_map (tm_buckets st2) = edge_map (tm_buckets st)"
    and l2: "tm_list st2 = tm_list st1" "tm_num_triangles st2 = tm_num_triangles st1" "tm_next st2 = tm_next st1"
    using rehash_step[OF hi] hi cnt by (auto simp: st2_def st1_def mesh_inv_def)
  have fold: "foldl (\<lambda>(ok, s) (u, v). let (ok', s') = hashInsert hash u v ?nd s in (ok \<and> ok', s'))
                (True, st2) (tri_edges t) = (ok, st')"
    using assms(2) unfolding addTriangle_def st1_def st2_def Let_def by (simp only: split_def)
  note I = insert_edges[OF inv2 fold]
  have nx: "tm_next st' = tm_next st2"
  proof -
    have "tm_next (snd (foldl (\<lambda>(ok, s) (u, v). let (ok', s') = hashInsert hash u v n s in (ok \<and> ok', s'))
             (b, s) es)) = tm_next s" for n b s es
      by (induction es arbitrary: b s) (auto simp: hashInsert_def Let_def split: prod.splits)
    then show ?thesis using fold by (metis snd_conv)
  qed
  show ?thesis using I[unfolded em2] l2 nx by (simp add: st1_def)
qed

lemma deleteTriangle_step:
  assumes "mesh_inv hash st" "deleteTriangle hash t st = (ok, st')"
  shows "mesh_inv hash st' \<and>
         edge_map (tm_buckets st') = (\<lambda>k. if k \<in> set (tri_edges t) then None else edge_map (tm_buckets st) k) \<and>
         ok = (distinct (tri_edges t) \<and> (\<forall>e \<in> set (tri_edges t). edge_map (tm_buckets st) e \<noteq> None)) \<and>
         (tm_list st', tm_num_triangles st') =
           (case find (\<lambda>e. edge_map (tm_buckets st) e \<noteq> None) (tri_edges t) of
              None \<Rightarrow> (tm_list st, tm_num_triangles st)
            | Some e \<Rightarrow> (markDeleted (the (edge_map (tm_buckets st) e)) (tm_list st), tm_num_triangles st - 1))"
proof -
  obtain first' where "foldl (deleteEdge hash) (True, True, st) (tri_edges t) = (first', ok, st')"
    using assms(2) by (auto simp: deleteTriangle_def split: prod.splits)
  from delete_edges[OF assms(1) this] show ?thesis by simp
qed

subsection \<open>Properties of the triangle store\<close>

text \<open>C10. Insert/lookup (refinement of a map): after \<open>addTriangle\<close>, \<open>completeMe\<close> returns
  the new list node for the three directed edges of the triangle and the old answer
  for every other edge; the call reports success exactly when the three edges are
  distinct and none of them was in the table.
\<close>

theorem completeMe_addTriangle:
  assumes "mesh_inv hash st" "addTriangle hash t st = (ok, st')"
  shows "(\<forall>u v. completeMe hash u v st' =
            (if (u, v) \<in> set (tri_edges t) then Some (tm_next st) else completeMe hash u v st)) \<and>
         ok = (distinct (tri_edges t) \<and> (\<forall>(u, v) \<in> set (tri_edges t). completeMe hash u v st = None))"
proof -
  note S = addTriangle_step[OF assms]
  have hi: "hash_inv hash (tm_buckets st)" "hash_inv hash (tm_buckets st')"
    using assms(1) S by (simp_all add: mesh_inv_def)
  show ?thesis using S by (auto simp: completeMe_edge_map[OF hi(1)] completeMe_edge_map[OF hi(2)])
qed

text \<open>C11. Deletion (refinement of a map): after \<open>deleteTriangle\<close>, \<open>completeMe\<close> finds
  none of the triangle's edges and answers as before for every other edge; success
  means all three edges were present; the list node the first present edge pointed
  to is marked \<open>DELETE_ME\<close>.
\<close>

theorem completeMe_deleteTriangle:
  assumes "mesh_inv hash st" "deleteTriangle hash t st = (ok, st')"
  shows "(\<forall>u v. completeMe hash u v st' =
            (if (u, v) \<in> set (tri_edges t) then None else completeMe hash u v st)) \<and>
         ok = (distinct (tri_edges t) \<and> (\<forall>(u, v) \<in> set (tri_edges t). completeMe hash u v st \<noteq> None)) \<and>
         tm_list st' =
           (case find (\<lambda>(u, v). completeMe hash u v st \<noteq> None) (tri_edges t) of
              None \<Rightarrow> tm_list st
            | Some (u, v) \<Rightarrow> markDeleted (the (completeMe hash u v st)) (tm_list st))"
proof -
  note S = deleteTriangle_step[OF assms]
  have hi: "hash_inv hash (tm_buckets st)" "hash_inv hash (tm_buckets st')"
    using assms(1) S by (simp_all add: mesh_inv_def)
  have f: "(\<lambda>(u, v). completeMe hash u v st \<noteq> None) = (\<lambda>e. edge_map (tm_buckets st) e \<noteq> None)"
    by (auto simp: completeMe_edge_map[OF hi(1)])
  show ?thesis using S unfolding f
    by (auto simp: completeMe_edge_map[OF hi(1)] completeMe_edge_map[OF hi(2)] split: option.splits)
qed

text \<open>C13. Growing the table: redistributing the entries over twice as many buckets
  changes no lookup and keeps the number of entries.
\<close>

theorem rehash_preserves_lookup:
  assumes "hash_inv hash (tm_buckets st)"
  shows "completeMe hash u v (st\<lparr>tm_buckets := rehash hash (tm_buckets st)\<rparr>) = completeMe hash u v st \<and>
         length (rehash hash (tm_buckets st)) = 2 * length (tm_buckets st) \<and>
         length (concat (rehash hash (tm_buckets st))) = length (concat (tm_buckets st))"
proof -
  note R = rehash_step[OF assms]
  have "hash_inv hash (tm_buckets (st\<lparr>tm_buckets := rehash hash (tm_buckets st)\<rparr>))" using R by simp
  from completeMe_edge_map[OF this] completeMe_edge_map[OF assms] R show ?thesis by simp
qed

lemma mesh_inv_init: "mesh_inv hash initMesh"
  by (simp add: mesh_inv_def hash_inv_def initMesh_def)

lemma deleteTriangle_next:
  "deleteTriangle hash t st = (ok, st') \<Longrightarrow> tm_next st' = tm_next st"
proof -
  have "tm_next (snd (snd (foldl (deleteEdge hash) (f, b, s) es))) = tm_next s" for f b s es
    by (induction es arbitrary: f b s)
       (auto simp: deleteEdge_def hashDelete_def Let_def split: prod.splits option.splits)
  then show "deleteTriangle hash t st = (ok, st') \<Longrightarrow> tm_next st' = tm_next st"
    by (auto simp: deleteTriangle_def split: prod.splits) (metis snd_conv)
qed

text \<open>C12. Invariant of the triangle store: in every state reachable from the initial
  table by \<open>addTriangle\<close>, \<open>deleteTriangle\<close> and \<open>deleteTrianglesFromList\<close>, every
  entry sits in the bucket of its hash, no chain holds an edge twice,
  \<open>num_hash_nodes\<close> counts the entries, and the list nodes are distinct and fresh.
\<close>

theorem mesh_reach_inv:
  "mesh_reach hash st \<Longrightarrow> mesh_inv hash st \<and> distinct (map fst (tm_list st)) \<and>
     (\<forall>(i, t) \<in> set (tm_list st). i < tm_next st)"
proof (induction rule: mesh_reach.induct)
  case init
  show ?case using mesh_inv_init[of hash] by (simp add: initMesh_def)
next
  case (add st t ok st')
  then show ?case using addTriangle_step[of hash st t ok st'] by fastforce
next
  case (del st t ok st')
  note S = deleteTriangle_step[OF conjunct1[OF del.IH] del.hyps(2)]
  have nx: "tm_next st' = tm_next st" using deleteTriangle_next del.hyps(2) by metis
  have "map fst (tm_list st') = map fst (tm_list st)"
  proof -
    have "(tm_list st', tm_num_triangles st') = (tm_list st, tm_num_triangles st) \<or>
          (\<exists>nd. (tm_list st', tm_num_triangles st') = (markDeleted nd (tm_list st), tm_num_triangles st - 1))"
      using S by (auto split: option.splits)
    then show ?thesis by (auto simp: markDeleted_def comp_def split_def)
  qed
  then have "set (map fst (tm_list st')) = set (map fst (tm_list st))" by simp
  then have "\<forall>(i, t) \<in> set (tm_list st'). i < tm_next st'"
    using del.IH nx by (fastforce simp: image_iff)
  then show ?case using S \<open>map fst (tm_list st') = map fst (tm_list st)\<close> del.IH by simp
next
  case (purge st)
  then show ?case by (auto simp: deleteTrianglesFromList_def mesh_inv_def distinct_map_filter)
qed

lemma completeMe_initMesh: "completeMe hash u v initMesh = None"
  by (simp add: completeMe_def initMesh_def bucketOf_def)

lemma edge_map_initMesh: "edge_map (tm_buckets initMesh) k = None"
  by (simp add: initMesh_def edge_map_def)

lemma initMesh_fields [simp]: "tm_next initMesh = 0" "tm_list initMesh = []"
  by (simp_all add: initMesh_def)

theorem completeMe_addTriangle_witness:
  "\<exists>ok st'. addTriangle (\<lambda>u v. u + 3 * v) \<lparr>tri_u = 1, tri_v = 2, tri_w = 3, tri_tag = 7, tri_status = ACTIVE\<rparr> initMesh
      = (ok, st') \<and> ok \<and> completeMe (\<lambda>u v. u + 3 * v) 2 3 st' = Some 0 \<and> completeMe (\<lambda>u v. u + 3 * v) 3 2 st' = None"
proof -
  obtain ok st' where A: "addTriangle (\<lambda>u v. u + 3 * v) \<lparr>tri_u = 1, tri_v = 2, tri_w = 3, tri_tag = 7, tri_status = ACTIVE\<rparr>
      initMesh = (ok, st')" by fastforce
  note C = completeMe_addTriangle[OF mesh_inv_init A]
  show ?thesis using A C by (auto simp: tri_edges_def completeMe_initMesh)
qed

theorem completeMe_deleteTriangle_witness:
  "\<exists>ok1 st1 ok2 st2. addTriangle (\<lambda>u v. u + 3 * v) \<lparr>tri_u = 1, tri_v = 2, tri_w = 3, tri_tag = 7, tri_status = ACTIVE\<rparr>
      initMesh = (ok1, st1) \<and>
    deleteTriangle (\<lambda>u v. u + 3 * v) \<lparr>tri_u = 2, tri_v = 3, tri_w = 1, tri_tag = 0, tri_status = NO_STATUS\<rparr> st1
      = (ok2, st2) \<and> ok2 \<and> completeMe (\<lambda>u v. u + 3 * v) 1 2 st2 = None \<and>
    tm_list st2 = [(0, \<lparr>tri_u = 1, tri_v = 2, tri_w = 3, tri_tag = 0, tri_status = DELETE_ME\<rparr>)]"
proof -
  let ?h = "\<lambda>u v. u + 3 * v :: u32"
  obtain ok1 st1 where A: "addTriangle ?h \<lparr>tri_u = 1, tri_v = 2, tri_w = 3, tri_tag = 7, tri_status = ACTIVE\<rparr>
      initMesh = (ok1, st1)" by fastforce
  note S = addTriangle_step[OF mesh_inv_init A]
  have C1: "completeMe ?h u v st1 = (if (u, v) \<in> {(1, 2), (2, 3), (3, 1)} then Some 0 else None)" for u v
  proof -
    have "hash_inv ?h (tm_buckets st1)" using S by (simp add: mesh_inv_def)
    from completeMe_edge_map[OF this] S show ?thesis
      by (simp add: tri_edges_def edge_map_initMesh)
  qed
  obtain ok2 st2 where D: "deleteTriangle ?h \<lparr>tri_u = 2, tri_v = 3, tri_w = 1, tri_tag = 0, tri_status = NO_STATUS\<rparr> st1
      = (ok2, st2)" by fastforce
  note E = completeMe_deleteTriangle[OF conjunct1[OF S] D]
  show ?thesis using A D E S by (auto simp: tri_edges_def C1 markDeleted_def)
qed

theorem rehash_preserves_lookup_witness:
  "completeMe (\<lambda>u v. u + 3 * v) 1 2 (initMesh\<lparr>tm_buckets := rehash (\<lambda>u v. u + 3 * v) (tm_buckets initMesh)\<rparr>)
     = completeMe (\<lambda>u v. u + 3 * v) 1 2 initMesh \<and>
   length (rehash (\<lambda>u v. u + 3 * v) (tm_buckets initMesh)) = 2 * length (tm_buckets initMesh) \<and>
   length (concat (rehash (\<lambda>u v. u + 3 * v) (tm_buckets initMesh))) = length (concat (tm_buckets initMesh))"
  by (rule rehash_preserves_lookup) (simp add: hash_inv_def initMesh_def)

theorem mesh_reach_inv_witness:
  "\<exists>ok st'. addTriangle (\<lambda>u v. u + 3 * v) \<lparr>tri_u = 1, tri_v = 2, tri_w = 3, tri_tag = 7, tri_status = ACTIVE\<rparr> initMesh
      = (ok, st') \<and> mesh_inv (\<lambda>u v. u + 3 * v) st' \<and> distinct (map fst (tm_list st')) \<and>
      (\<forall>(i, t) \<in> set (tm_list st'). i < tm_next st')"
proof -
  obtain ok st' where A: "addTriangle (\<lambda>u v. u + 3 * v) \<lparr>tri_u = 1, tri_v = 2, tri_w = 3, tri_tag = 7, tri_status = ACTIVE\<rparr>
      initMesh = (ok, st')" by fastforce
  show ?thesis using A mesh_reach_inv[OF mesh_reach.add[OF mesh_reach.init A]] by blast
qed

end
