(* ===== verification/QuadTree.thy ===== *)
theory QuadTree
  imports Prelude
begin

text \<open>
  The point quadtree of the mesh generator, \<open>TMRQuadNode\<close> in
  \<open>src/src/TMRTriangularize.c\<close> lines 152--430: construction of a node
  (\<open>initialize\<close>), \<open>addNode\<close>, \<open>deleteNode\<close> and the nearest-point search
  \<open>findClosest\<close>.

  \<^item> A node is a leaf holding its points (number and parametric location, in the
    order of the arrays \<open>pt_nums\<close> and \<open>pts\<close>) or a split node with its four
    children; both carry \<open>qinfo\<close>, the integer position \<open>u, v\<close>, the level, and the
    dividing coordinates \<open>x, y\<close> that \<open>initialize\<close> computes.  The constants
    \<open>NODES_PER_LEVEL\<close> and \<open>MAX_DEPTH\<close> come from a header outside the sources and
    are parameters \<open>npl\<close> and \<open>maxd\<close>.
  \<^item> \<open>1 << n\<close> on an \<open>int\<close> is defined for \<open>0 \<le> n < 31\<close> in C and in C++
    before C++14 (the sources do not fix the language level); outside that range
    \<open>qshift\<close> and everything built on it is \<open>None\<close>.  \<open>u + h\<close> is \<open>uint32_t\<close>
    arithmetic and wraps.
  \<^item> \<open>addNode\<close> recurses into the children and, at a full leaf, creates four
    children and re-adds the leaf's points, a recursion on a tree that is not a
    subterm of the argument; it is modelled as the partial function \<open>addNodes\<close>
    (adding a list of points in order) in the option monad, so that a run that
    does not return is \<open>None\<close>, and the lemmas prove when it returns.
  \<^item> \<open>findClosestRec\<close> follows the order of the recursive calls and the pruning
    tests of the code, on the running pair (index, distance); \<open>findClosest\<close>
    starts it from \<open>(0, MAX_QUAD_DISTANCE)\<close> with \<open>MAX_QUAD_DISTANCE = 1e40\<close>.
\<close>

record qdomain =
  xlow :: real
  xhigh :: real
  ylow :: real
  yhigh :: real

record qinfo =
  q_u :: u32
  q_v :: u32
  q_level :: int
  q_x :: real
  q_y :: real

type_synonym qpoint = "u32 \<times> real \<times> real"

datatype qnode = QLeaf qinfo "qpoint list" | QSplit qinfo qnode qnode qnode qnode

subsection \<open>Construction\<close>

definition qshift :: "int \<Rightarrow> u32 option" where
  "qshift n = (if 0 \<le> n \<and> n < 31 then Some (2 ^ nat n) else None)"

definition qinitialize :: "int \<Rightarrow> qdomain \<Rightarrow> u32 \<Rightarrow> u32 \<Rightarrow> int \<Rightarrow> qinfo option" where
  "qinitialize maxd dm u v level =
     (case (qshift maxd, qshift (maxd - level - 1)) of
        (Some hmax, Some h) \<Rightarrow>
          let ax = real (unat (u + h)) / real (unat hmax);
              ay = real (unat (v + h)) / real (unat hmax)
          in Some \<lparr>q_u = u, q_v = v, q_level = level,
                   q_x = (1 - ax) * xlow dm + ax * xhigh dm,
                   q_y = (1 - ay) * ylow dm + ay * yhigh dm\<rparr>
      | _ \<Rightarrow> None)"

definition qroot :: "int \<Rightarrow> qdomain \<Rightarrow> qnode option" where
  "qroot maxd dm = map_option (\<lambda>i. QLeaf i []) (qinitialize maxd dm 0 0 0)"

text \<open>
  The split of a full leaf: four children one level down, at \<open>(u, v)\<close>,
  \<open>(u + h, v)\<close>, \<open>(u, v + h)\<close> and \<open>(u + h, v + h)\<close> (low-left, low-right,
  up-left, up-right).
\<close>

definition qsplit :: "int \<Rightarrow> qdomain \<Rightarrow> qinfo \<Rightarrow> qnode option" where
  "qsplit maxd dm i =
     (case qshift (maxd - q_level i - 1) of
        None \<Rightarrow> None
      | Some h \<Rightarrow>
          (case (qinitialize maxd dm (q_u i) (q_v i) (q_level i + 1),
                 qinitialize maxd dm (q_u i + h) (q_v i) (q_level i + 1),
                 qinitialize maxd dm (q_u i) (q_v i + h) (q_level i + 1),
                 qinitialize maxd dm (q_u i + h) (q_v i + h) (q_level i + 1)) of
             (Some ll, Some lr, Some ul, Some ur) \<Rightarrow>
               Some (QSplit i (QLeaf ll []) (QLeaf lr []) (QLeaf ul []) (QLeaf ur []))
           | _ \<Rightarrow> None))"

subsection \<open>Adding, deleting and searching\<close>

partial_function (option) addNodes :: "nat \<Rightarrow> int \<Rightarrow> qdomain \<Rightarrow> qpoint list \<Rightarrow> qnode \<Rightarrow> qnode option" where
  "addNodes npl maxd dm qs t =
     (case qs of
        [] \<Rightarrow> Some t
      | (num, px, py) # rest \<Rightarrow>
          (case t of
             QSplit i ll lr ul ur \<Rightarrow>
               if px < q_x i \<and> py < q_y i then
                 Option.bind (addNodes npl maxd dm [(num, px, py)] ll)
                   (\<lambda>c. addNodes npl maxd dm rest (QSplit i c lr ul ur))
               else if px < q_x i then
                 Option.bind (addNodes npl maxd dm [(num, px, py)] ul)
                   (\<lambda>c. addNodes npl maxd dm rest (QSplit i ll lr c ur))
               else if py < q_y i then
                 Option.bind (addNodes npl maxd dm [(num, px, py)] lr)
                   (\<lambda>c. addNodes npl maxd dm rest (QSplit i ll c ul ur))
               else
                 Option.bind (addNodes npl maxd dm [(num, px, py)] ur)
                   (\<lambda>c. addNodes npl maxd dm rest (QSplit i ll lr ul c))
           | QLeaf i ps \<Rightarrow>
               if length ps < npl then addNodes npl maxd dm rest (QLeaf i (ps @ [(num, px, py)]))
               else
                 (case qsplit maxd dm i of
                    None \<Rightarrow> None
                  | Some s \<Rightarrow> Option.bind (addNodes npl maxd dm ps s) (\<lambda>t'. addNodes npl maxd dm rest t'))))"

declare addNodes.simps [code]

definition addNode :: "nat \<Rightarrow> int \<Rightarrow> qdomain \<Rightarrow> u32 \<Rightarrow> real \<times> real \<Rightarrow> qnode \<Rightarrow> qnode option" where
  "addNode npl maxd dm num pt t = addNodes npl maxd dm [(num, fst pt, snd pt)] t"

fun remove_num :: "u32 \<Rightarrow> qpoint list \<Rightarrow> qpoint list option" where
  "remove_num num [] = None"
| "remove_num num (q # qs) =
     (if fst q = num then Some qs else map_option (\<lambda>qs'. q # qs') (remove_num num qs))"

fun deleteNode :: "u32 \<Rightarrow> real \<times> real \<Rightarrow> qnode \<Rightarrow> bool \<times> qnode" where
  "deleteNode num (px, py) (QSplit i ll lr ul ur) =
     (if px < q_x i \<and> py < q_y i then
        (case deleteNode num (px, py) ll of (r, c) \<Rightarrow> (r, QSplit i c lr ul ur))
      else if px < q_x i then
        (case deleteNode num (px, py) ul of (r, c) \<Rightarrow> (r, QSplit i ll lr c ur))
      else if py < q_y i then
        (case deleteNode num (px, py) lr of (r, c) \<Rightarrow> (r, QSplit i ll c ul ur))
      else
        (case deleteNode num (px, py) ur of (r, c) \<Rightarrow> (r, QSplit i ll lr ul c)))"
| "deleteNode num pt (QLeaf i ps) =
     (case remove_num num ps of None \<Rightarrow> (False, QLeaf i ps) | Some ps' \<Rightarrow> (True, QLeaf i ps'))"

definition pdist :: "real \<times> real \<Rightarrow> real \<times> real \<Rightarrow> real" where
  "pdist p q = sqrt ((fst p - fst q) * (fst p - fst q) + (snd p - snd q) * (snd p - snd q))"

fun findClosestRec :: "real \<times> real \<Rightarrow> qnode \<Rightarrow> u32 \<times> real \<Rightarrow> u32 \<times> real" where
  "findClosestRec p (QLeaf i ps) acc =
     foldl (\<lambda>(idx, d) (n, qx, qy). let dd = pdist p (qx, qy) in if dd < d then (n, dd) else (idx, d)) acc ps"
| "findClosestRec p (QSplit i ll lr ul ur) acc =
     (let x = q_x i; y = q_y i; px = fst p; py = snd p
      in if px < x \<and> py < y then
           (let a1 = findClosestRec p ll acc;
                a2 = (if x - px \<le> snd a1 then findClosestRec p lr a1 else a1);
                a3 = (if y - py \<le> snd a2 then findClosestRec p ul a2 else a2)
            in if x - px \<le> snd a3 \<or> y - py \<le> snd a3 then findClosestRec p ur a3 else a3)
         else if px < x then
           (let a1 = findClosestRec p ul acc;
                a2 = (if x - px \<le> snd a1 then findClosestRec p ur a1 else a1);
                a3 = (if py - y \<le> snd a2 then findClosestRec p ll a2 else a2)
            in if x - px \<le> snd a3 \<or> py - y \<le> snd a3 then findClosestRec p lr a3 else a3)
         else if py < y then
           (let a1 = findClosestRec p lr acc;
                a2 = (if px - x \<le> snd a1 then findClosestRec p ll a1 else a1);
                a3 = (if y - py \<le> snd a2 then findClosestRec p ur a2 else a2)
            in if px - x \<le> snd a3 \<or> y - py \<le> snd a3 then findClosestRec p ul a3 else a3)
         else
           (let a1 = findClosestRec p ur acc;
                a2 = (if px - x \<le> snd a1 then findClosestRec p ul a1 else a1);
                a3 = (if py - y \<le> snd a2 then findClosestRec p lr a2 else a2)
            in if px - x \<le> snd a3 \<or> py - y \<le> snd a3 then findClosestRec p ll a3 else a3))"

definition MAX_QUAD_DISTANCE :: real where
  "MAX_QUAD_DISTANCE = 10 ^ 40"

definition findClosest :: "real \<times> real \<Rightarrow> qnode \<Rightarrow> u32 \<times> real" where
  "findClosest p t = findClosestRec p t (0, MAX_QUAD_DISTANCE)"

subsection \<open>Abstraction and invariants\<close>

text \<open>
  \<open>qpoints\<close> lists the stored points; \<open>qinv\<close> says that every point of a child lies
  on the child's side of the dividing lines (the routing of \<open>addNode\<close>);
  \<open>qcap\<close> that no leaf holds more than \<open>npl\<close> points; \<open>qtarget\<close> is the leaf a point
  is routed to.
\<close>

fun qpoints :: "qnode \<Rightarrow> qpoint list" where
  "qpoints (QLeaf i ps) = ps"
| "qpoints (QSplit i ll lr ul ur) = qpoints ll @ qpoints lr @ qpoints ul @ qpoints ur"

fun qinv :: "qnode \<Rightarrow> bool" where
  "qinv (QLeaf i ps) = True"
| "qinv (QSplit i ll lr ul ur) =
     (qinv ll \<and> qinv lr \<and> qinv ul \<and> qinv ur \<and>
      (\<forall>(n, a, b) \<in> set (qpoints ll). a < q_x i \<and> b < q_y i) \<and>
      (\<forall>(n, a, b) \<in> set (qpoints lr). \<not> a < q_x i \<and> b < q_y i) \<and>
      (\<forall>(n, a, b) \<in> set (qpoints ul). a < q_x i \<and> \<not> b < q_y i) \<and>
      (\<forall>(n, a, b) \<in> set (qpoints ur). \<not> a < q_x i \<and> \<not> b < q_y i))"

fun qcap :: "nat \<Rightarrow> qnode \<Rightarrow> bool" where
  "qcap npl (QLeaf i ps) = (length ps \<le> npl)"
| "qcap npl (QSplit i ll lr ul ur) = (qcap npl ll \<and> qcap npl lr \<and> qcap npl ul \<and> qcap npl ur)"

fun qtarget :: "real \<times> real \<Rightarrow> qnode \<Rightarrow> qinfo \<times> qpoint list" where
  "qtarget (px, py) (QSplit i ll lr ul ur) =
     (if px < q_x i \<and> py < q_y i then qtarget (px, py) ll
      else if px < q_x i then qtarget (px, py) ul
      else if py < q_y i then qtarget (px, py) lr
      else qtarget (px, py) ur)"
| "qtarget pt (QLeaf i ps) = (i, ps)"

text \<open>
  The contract of the nearest-point search on a set of points \<open>S\<close>: from the running pair
  \<open>acc\<close> the result's distance is the least of \<open>snd acc\<close> and the distances to \<open>S\<close>,
  and the result is \<open>acc\<close> or names a point of \<open>S\<close> at that distance.
\<close>

definition closest_spec :: "real \<times> real \<Rightarrow> qpoint set \<Rightarrow> u32 \<times> real \<Rightarrow> u32 \<times> real \<Rightarrow> bool" where
  "closest_spec p S acc res \<longleftrightarrow>
     snd res = Min (insert (snd acc) ((\<lambda>(n, a, b). pdist p (a, b)) ` S)) \<and>
     (res = acc \<or> (\<exists>a b. (fst res, a, b) \<in> S \<and> pdist p (a, b) = snd res))"



subsection \<open>Unfolding the partial function\<close>

lemma addNodes_Nil [simp]: "addNodes npl maxd dm [] t = Some t"
  by (subst addNodes.simps) simp

lemma addNodes_Cons:
  "addNodes npl maxd dm (q # rest) t = Option.bind (addNodes npl maxd dm [q] t) (addNodes npl maxd dm rest)"
proof -
  obtain num px py where q: "q = (num, px, py)" by (metis prod_cases3)
  show ?thesis
  proof (cases t)
    case (QLeaf i ps)
    then show ?thesis unfolding q
      by (subst (1 2) addNodes.simps) (auto split: option.splits)
  next
    case (QSplit i ll lr ul ur)
    then show ?thesis unfolding q
      by (subst (1 2) addNodes.simps) (simp add: bind_assoc)
  qed
qed

lemma addNodes_split:
  "addNodes npl maxd dm [(num, px, py)] (QSplit i ll lr ul ur) =
     (if px < q_x i \<and> py < q_y i then map_option (\<lambda>c. QSplit i c lr ul ur) (addNodes npl maxd dm [(num, px, py)] ll)
      else if px < q_x i then map_option (\<lambda>c. QSplit i ll lr c ur) (addNodes npl maxd dm [(num, px, py)] ul)
      else if py < q_y i then map_option (\<lambda>c. QSplit i ll c ul ur) (addNodes npl maxd dm [(num, px, py)] lr)
      else map_option (\<lambda>c. QSplit i ll lr ul c) (addNodes npl maxd dm [(num, px, py)] ur))"
  by (subst addNodes.simps) (auto simp: Option.bind_eq_Some_conv map_option_case split: option.splits)

subsection \<open>Adding points\<close>

lemma mset_set_add:
  "mset xs = add_mset p (mset ys) \<Longrightarrow> set xs = insert p (set ys)"
  by (metis set_mset_mset set_mset_add_mset_insert)

lemma qtarget_length: "length (snd (qtarget p t)) \<le> length (qpoints t)"
  by (induction p t rule: qtarget.induct) auto

lemma addNodes_room:
  "length (snd (qtarget (px, py) t)) < npl \<Longrightarrow>
   \<exists>t'. addNodes npl maxd dm [(num, px, py)] t = Some t' \<and>
        mset (qpoints t') = mset (qpoints t) + {#(num, px, py)#} \<and>
        (qinv t \<longrightarrow> qinv t') \<and> (qcap npl t \<longrightarrow> qcap npl t')"
proof (induction t)
  case (QLeaf i ps)
  then show ?case by (subst addNodes.simps) simp
next
  case (QSplit i ll lr ul ur)
  show ?case
  proof (cases "px < q_x i \<and> py < q_y i")
    case True
    with QSplit.prems obtain c where "addNodes npl maxd dm [(num, px, py)] ll = Some c"
      and "mset (qpoints c) = mset (qpoints ll) + {#(num, px, py)#}"
      and "qinv ll \<longrightarrow> qinv c" "qcap npl ll \<longrightarrow> qcap npl c" using QSplit.IH(1) by auto
    with True show ?thesis by (auto simp: addNodes_split dest!: mset_set_add)
  next
    case F1: False
    show ?thesis
    proof (cases "px < q_x i")
      case True
      with F1 QSplit.prems obtain c where "addNodes npl maxd dm [(num, px, py)] ul = Some c"
        and "mset (qpoints c) = mset (qpoints ul) + {#(num, px, py)#}"
        and "qinv ul \<longrightarrow> qinv c" "qcap npl ul \<longrightarrow> qcap npl c" using QSplit.IH(3) by auto
      with True F1 show ?thesis by (auto simp: addNodes_split dest!: mset_set_add)
    next
      case F2: False
      show ?thesis
      proof (cases "py < q_y i")
        case True
        with F1 F2 QSplit.prems obtain c where "addNodes npl maxd dm [(num, px, py)] lr = Some c"
          and "mset (qpoints c) = mset (qpoints lr) + {#(num, px, py)#}"
          and "qinv lr \<longrightarrow> qinv c" "qcap npl lr \<longrightarrow> qcap npl c" using QSplit.IH(2) by auto
        with True F1 F2 show ?thesis by (auto simp: addNodes_split dest!: mset_set_add)
      next
        case False
        with F1 F2 QSplit.prems obtain c where "addNodes npl maxd dm [(num, px, py)] ur = Some c"
          and "mset (qpoints c) = mset (qpoints ur) + {#(num, px, py)#}"
          and "qinv ur \<longrightarrow> qinv c" "qcap npl ur \<longrightarrow> qcap npl c" using QSplit.IH(4) by auto
        with False F1 F2 show ?thesis by (auto simp: addNodes_split dest!: mset_set_add)
      qed
    qed
  qed
qed

lemma addNodes_fits:
  "length (qpoints t) + length qs \<le> npl \<Longrightarrow>
   \<exists>t'. addNodes npl maxd dm qs t = Some t' \<and> mset (qpoints t') = mset (qpoints t) + mset qs \<and>
        (qinv t \<longrightarrow> qinv t') \<and> (qcap npl t \<longrightarrow> qcap npl t')"
proof (induction qs arbitrary: t)
  case Nil
  then show ?case by simp
next
  case (Cons q qs)
  obtain num px py where q: "q = (num, px, py)" by (metis prod_cases3)
  have "length (snd (qtarget (px, py) t)) < npl"
    using qtarget_length[of "(px, py)" t] Cons.prems by simp
  then obtain t1 where t1: "addNodes npl maxd dm [(num, px, py)] t = Some t1"
    "mset (qpoints t1) = mset (qpoints t) + {#(num, px, py)#}"
    "qinv t \<longrightarrow> qinv t1" "qcap npl t \<longrightarrow> qcap npl t1"
    using addNodes_room by blast
  have "length (qpoints t1) = Suc (length (qpoints t))"
    using arg_cong[OF t1(2), of size] by simp
  then obtain t2 where t2: "addNodes npl maxd dm qs t1 = Some t2"
    "mset (qpoints t2) = mset (qpoints t1) + mset qs"
    "qinv t1 \<longrightarrow> qinv t2" "qcap npl t1 \<longrightarrow> qcap npl t2"
    using Cons.IH[of t1] Cons.prems by auto
  have "addNodes npl maxd dm (q # qs) t = Some t2"
    unfolding q by (subst addNodes_Cons) (simp add: t1(1) t2(1))
  moreover have "mset (qpoints t2) = mset (qpoints t) + mset (q # qs)"
    unfolding t2(2) t1(2) q by simp
  ultimately show ?case using t1(3,4) t2(3,4) by blast
qed

lemma qinitialize_None_iff:
  "qinitialize maxd dm u v l = None \<longleftrightarrow> \<not> (0 \<le> maxd \<and> maxd < 31 \<and> 0 \<le> maxd - l - 1 \<and> maxd - l - 1 < 31)"
  by (auto simp: qinitialize_def qshift_def Let_def)

lemma qsplit_Some_iff:
  "qsplit maxd dm i \<noteq> None \<longleftrightarrow> 0 \<le> maxd \<and> maxd < 31 \<and> q_level i + 2 \<le> maxd \<and> maxd < q_level i + 32"
proof (cases "0 \<le> maxd \<and> maxd < 31 \<and> q_level i + 2 \<le> maxd \<and> maxd < q_level i + 32")
  case True
  then have "qinitialize maxd dm u v (q_level i + 1) \<noteq> None" for u v
    by (simp only: qinitialize_None_iff) simp
  with True show ?thesis
    by (auto simp: qsplit_def qshift_def simp del: not_None_eq split: option.split)
next
  case False
  then have "qshift (maxd - q_level i - 1) = None \<or> qinitialize maxd dm u v (q_level i + 1) = None" for u v
    by (simp only: qinitialize_None_iff) (auto simp: qshift_def)
  with False show ?thesis
    by (auto simp: qsplit_def split: option.split)
qed

lemma qsplit_Some:
  "qsplit maxd dm i = Some s \<Longrightarrow> qpoints s = [] \<and> qinv s \<and> qcap npl s"
  by (auto simp: qsplit_def split: option.splits)

lemma addNodes_leaf_full:
  assumes "\<not> length ps < npl"
  shows "
   addNodes npl maxd dm [(num, px, py)] (QLeaf i ps) =
     (case qsplit maxd dm i of None \<Rightarrow> None | Some s \<Rightarrow> addNodes npl maxd dm ps s)"
proof -
  have "Option.bind x (addNodes npl maxd dm []) = x" for x by (cases x) simp_all
  then show ?thesis using assms by (subst addNodes.simps) (simp split: option.split)
qed

lemma addNodes_full:
  "npl \<le> length (snd (qtarget (px, py) t)) \<Longrightarrow> qcap npl t \<Longrightarrow>
   (addNodes npl maxd dm [(num, px, py)] t = None \<longleftrightarrow> qsplit maxd dm (fst (qtarget (px, py) t)) = None) \<and>
   (\<forall>t'. addNodes npl maxd dm [(num, px, py)] t = Some t' \<longrightarrow>
        mset (qpoints t') = mset (qpoints t) \<and> (qinv t \<longrightarrow> qinv t') \<and> qcap npl t')"
proof (induction t)
  case (QLeaf i ps)
  show ?case
  proof (cases "qsplit maxd dm i")
    case None
    with QLeaf.prems show ?thesis by (simp add: addNodes_leaf_full)
  next
    case (Some s)
    with qsplit_Some[of maxd dm i s npl] obtain s' where
      "addNodes npl maxd dm ps s = Some s'" "mset (qpoints s') = mset ps" "qinv s'" "qcap npl s'"
      using addNodes_fits[of s ps npl maxd dm] QLeaf.prems by auto
    with Some QLeaf.prems show ?thesis by (simp add: addNodes_leaf_full)
  qed
next
  case (QSplit i ll lr ul ur)
  then show ?case
    by (auto simp: addNodes_split split: if_splits dest!: mset_eq_setD)
qed

subsection \<open>The nearest-point search\<close>

lemma Min_insert_iff:
  "finite A \<Longrightarrow> m = Min (insert x A) \<longleftrightarrow> m \<in> insert x A \<and> (\<forall>y\<in>insert x A. m \<le> y)"
  for m :: real by (metis Min_eq_iff finite_insert insert_not_empty)

lemma closest_spec_trans:
  assumes "finite S1" "finite S2" "closest_spec p S1 a b" "closest_spec p S2 b c"
  shows "closest_spec p (S1 \<union> S2) a c"
proof -
  let ?D = "\<lambda>S. (\<lambda>(n, x, y). pdist p (x, y)) ` S"
  have f: "finite (?D S1)" "finite (?D S2)" "finite (?D (S1 \<union> S2))" using assms(1,2) by auto
  have c: "snd c \<in> insert (snd b) (?D S2)" "\<forall>y\<in>insert (snd b) (?D S2). snd c \<le> y"
    using assms(4) Min_insert_iff[OF f(2)] unfolding closest_spec_def by blast+
  have b: "snd b \<in> insert (snd a) (?D S1)" "\<forall>y\<in>insert (snd a) (?D S1). snd b \<le> y"
    using assms(3) Min_insert_iff[OF f(1)] unfolding closest_spec_def by blast+
  have "snd c \<in> insert (snd a) (?D (S1 \<union> S2))" using b(1) c(1) by (auto simp: image_Un)
  moreover have "\<forall>y\<in>insert (snd a) (?D (S1 \<union> S2)). snd c \<le> y"
    using b(2) c by (force simp: image_Un)
  ultimately have "snd c = Min (insert (snd a) (?D (S1 \<union> S2)))"
    using Min_insert_iff[OF f(3)] by blast
  moreover have "c = a \<or> (\<exists>x y. (fst c, x, y) \<in> S1 \<union> S2 \<and> pdist p (x, y) = snd c)"
    using assms(3,4) unfolding closest_spec_def by (metis Un_iff)
  ultimately show ?thesis unfolding closest_spec_def by blast
qed

lemma closest_spec_skip:
  "finite S \<Longrightarrow> \<forall>(n, x, y)\<in>S. snd acc \<le> pdist p (x, y) \<Longrightarrow> closest_spec p S acc acc"
  unfolding closest_spec_def by (subst Min_insert_iff) auto

lemma closest_spec_cond:
  "finite S \<Longrightarrow> (c \<Longrightarrow> closest_spec p S a (f a)) \<Longrightarrow>
   (\<not> c \<Longrightarrow> \<forall>(n, x, y)\<in>S. snd a \<le> pdist p (x, y)) \<Longrightarrow>
   closest_spec p S a (if c then f a else a)"
  using closest_spec_skip by auto

lemma closest_spec_foldl:
  "closest_spec p (set ps) acc
     (foldl (\<lambda>(idx, d) (n, qx, qy). let dd = pdist p (qx, qy) in if dd < d then (n, dd) else (idx, d)) acc ps)"
proof (induction ps arbitrary: acc)
  case Nil
  then show ?case by (simp add: closest_spec_def)
next
  case (Cons q ps)
  obtain n qx qy where q: "q = (n, qx, qy)" by (metis prod_cases3)
  obtain idx d where acc: "acc = (idx, d)" by fastforce
  have "closest_spec p {q} acc (let dd = pdist p (qx, qy) in if dd < d then (n, dd) else (idx, d))"
      unfolding q acc closest_spec_def by (simp add: Let_def min_def)
  from closest_spec_trans[OF _ _ this Cons.IH] show ?case
    by (simp add: q acc)
qed

lemma pdist_ge_abs:
  "\<bar>fst p - a\<bar> \<le> pdist p (a, b)" "\<bar>snd p - b\<bar> \<le> pdist p (a, b)"
proof -
  have "\<bar>u\<bar> \<le> sqrt (u * u + v * v)" for u v :: real
    using real_sqrt_le_mono[of "u * u" "u * u + v * v"] by (simp add: real_sqrt_abs2)
  note r = this
  show "\<bar>fst p - a\<bar> \<le> pdist p (a, b)"
    unfolding pdist_def using r[of "fst p - a" "snd p - b"] by simp
  show "\<bar>snd p - b\<bar> \<le> pdist p (a, b)"
    unfolding pdist_def using r[of "snd p - b" "fst p - a"] by (simp add: add.commute)
qed

lemma closest_prune:
  "\<forall>(n, x, y)\<in>S. e \<le> \<bar>fst p - x\<bar> \<or> e \<le> \<bar>snd p - y\<bar> \<Longrightarrow> \<not> e \<le> d \<Longrightarrow>
   \<forall>(n, x, y)\<in>S. d \<le> pdist p (x, y)"
proof (intro ballI, clarify)
  fix n x y assume "(n, x, y) \<in> S" "\<forall>(n, x, y)\<in>S. e \<le> \<bar>fst p - x\<bar> \<or> e \<le> \<bar>snd p - y\<bar>" "\<not> e \<le> d"
  then have "e \<le> \<bar>fst p - x\<bar> \<or> e \<le> \<bar>snd p - y\<bar>" "d < e" by auto
  then show "d \<le> pdist p (x, y)" using pdist_ge_abs[where p=p and a=x and b=y] by linarith
qed

lemma closest_prune_quadrants:
  "\<forall>(n, a, b)\<in>S. x \<le> a \<Longrightarrow> \<not> x - fst p \<le> d \<Longrightarrow> \<forall>(n, a, b)\<in>S. d \<le> pdist p (a, b)"
  "\<forall>(n, a, b)\<in>S. a < x \<Longrightarrow> \<not> fst p - x \<le> d \<Longrightarrow> \<forall>(n, a, b)\<in>S. d \<le> pdist p (a, b)"
  "\<forall>(n, a, b)\<in>S. y \<le> b \<Longrightarrow> \<not> y - snd p \<le> d \<Longrightarrow> \<forall>(n, a, b)\<in>S. d \<le> pdist p (a, b)"
  "\<forall>(n, a, b)\<in>S. b < y \<Longrightarrow> \<not> snd p - y \<le> d \<Longrightarrow> \<forall>(n, a, b)\<in>S. d \<le> pdist p (a, b)"
  by (rule closest_prune; auto)+

lemma closest_spec_quad:
  assumes fin: "finite S1" "finite S2" "finite S3" "finite S4"
    and h: "\<And>a. closest_spec p S1 a (f1 a)" "\<And>a. closest_spec p S2 a (f2 a)"
      "\<And>a. closest_spec p S3 a (f3 a)" "\<And>a. closest_spec p S4 a (f4 a)"
    and p2: "\<And>d. \<not> ex \<le> d \<Longrightarrow> \<forall>(n, x, y)\<in>S2. d \<le> pdist p (x, y)"
    and p3: "\<And>d. \<not> ey \<le> d \<Longrightarrow> \<forall>(n, x, y)\<in>S3. d \<le> pdist p (x, y)"
    and p4: "\<And>d. \<not> ex \<le> d \<Longrightarrow> \<forall>(n, x, y)\<in>S4. d \<le> pdist p (x, y)"
  shows "closest_spec p (S1 \<union> S2 \<union> S3 \<union> S4) acc
           (let a1 = f1 acc; a2 = (if ex \<le> snd a1 then f2 a1 else a1);
                a3 = (if ey \<le> snd a2 then f3 a2 else a2)
            in if ex \<le> snd a3 \<or> ey \<le> snd a3 then f4 a3 else a3)"
proof -
  define a1 where "a1 = f1 acc"
  define a2 where "a2 = (if ex \<le> snd a1 then f2 a1 else a1)"
  define a3 where "a3 = (if ey \<le> snd a2 then f3 a2 else a2)"
  have A2: "closest_spec p S2 a1 a2" unfolding a2_def using fin(2) h(2) p2 by (rule closest_spec_cond)
  have A3: "closest_spec p S3 a2 a3" unfolding a3_def using fin(3) h(3) p3 by (rule closest_spec_cond)
  have A4: "closest_spec p S4 a3 (if ex \<le> snd a3 \<or> ey \<le> snd a3 then f4 a3 else a3)"
    using fin(4) h(4) p4 by (rule closest_spec_cond) simp
  have A1: "closest_spec p S1 acc a1" unfolding a1_def by (rule h(1))
  have "closest_spec p (S1 \<union> S2 \<union> S3 \<union> S4) acc
          (if ex \<le> snd a3 \<or> ey \<le> snd a3 then f4 a3 else a3)"
    using fin by (intro closest_spec_trans[OF _ _ closest_spec_trans[OF _ _ closest_spec_trans[OF _ _ A1 A2] A3] A4]) auto
  then show ?thesis unfolding a2_def a3_def a1_def Let_def .
qed

lemma qinv_split_bounds:
  assumes "qinv (QSplit i ll lr ul ur)"
  shows "\<forall>(n, a, b)\<in>set (qpoints ll). a < q_x i" "\<forall>(n, a, b)\<in>set (qpoints ll). b < q_y i"
    "\<forall>(n, a, b)\<in>set (qpoints lr). q_x i \<le> a" "\<forall>(n, a, b)\<in>set (qpoints lr). b < q_y i"
    "\<forall>(n, a, b)\<in>set (qpoints ul). a < q_x i" "\<forall>(n, a, b)\<in>set (qpoints ul). q_y i \<le> b"
    "\<forall>(n, a, b)\<in>set (qpoints ur). q_x i \<le> a" "\<forall>(n, a, b)\<in>set (qpoints ur). q_y i \<le> b"
  using assms by (auto simp: not_less split: prod.splits)

lemma findClosestRec_spec:
  "qinv t \<Longrightarrow> closest_spec p (set (qpoints t)) acc (findClosestRec p t acc)"
proof (induction t arbitrary: acc)
  case (QLeaf i ps)
  then show ?case using closest_spec_foldl by simp
next
  case (QSplit i ll lr ul ur)
  let ?x = "q_x i" and ?y = "q_y i"
  note b = qinv_split_bounds[OF QSplit.prems] and pr = closest_prune_quadrants[where p = p]
  have IH: "\<And>a. closest_spec p (set (qpoints ll)) a (findClosestRec p ll a)"
    "\<And>a. closest_spec p (set (qpoints lr)) a (findClosestRec p lr a)"
    "\<And>a. closest_spec p (set (qpoints ul)) a (findClosestRec p ul a)"
    "\<And>a. closest_spec p (set (qpoints ur)) a (findClosestRec p ur a)"
    using QSplit.IH QSplit.prems by simp_all
  have fin: "finite (set (qpoints c))" for c by simp
  have "closest_spec p (set (qpoints ll) \<union> set (qpoints lr) \<union> set (qpoints ul) \<union> set (qpoints ur)) acc
          (findClosestRec p (QSplit i ll lr ul ur) acc)"
  proof (cases "fst p < ?x \<and> snd p < ?y")
    case True
    then show ?thesis
      using closest_spec_quad[where acc = acc and ex = "q_x i - fst p" and ey = "q_y i - snd p", OF fin fin fin fin IH(1,2,3,4) pr(1)[OF b(3)] pr(3)[OF b(6)] pr(1)[OF b(7)]]
      by (simp add: Let_def)
  next
    case F1: False
    show ?thesis
    proof (cases "fst p < ?x")
      case True
      with F1 show ?thesis
        using closest_spec_quad[where acc = acc and ex = "q_x i - fst p" and ey = "snd p - q_y i", OF fin fin fin fin IH(3,4,1,2) pr(1)[OF b(7)] pr(4)[OF b(2)] pr(1)[OF b(3)]]
        by (simp add: Let_def Un_ac)
    next
      case F2: False
      show ?thesis
      proof (cases "snd p < ?y")
        case True
        with F1 F2 show ?thesis
          using closest_spec_quad[where acc = acc and ex = "fst p - q_x i" and ey = "q_y i - snd p", OF fin fin fin fin IH(2,1,4,3) pr(2)[OF b(1)] pr(3)[OF b(8)] pr(2)[OF b(5)]]
          by (simp add: Let_def Un_ac)
      next
        case False
        with F1 F2 show ?thesis
          using closest_spec_quad[where acc = acc and ex = "fst p - q_x i" and ey = "snd p - q_y i", OF fin fin fin fin IH(4,3,2,1) pr(2)[OF b(5)] pr(4)[OF b(4)] pr(2)[OF b(1)]]
          by (simp add: Let_def Un_ac)
      qed
    qed
  qed
  then show ?case by (simp add: Un_assoc)
qed

subsection \<open>Deleting points\<close>

lemma addNodes_leaf_room:
  "length ps < npl \<Longrightarrow> addNodes npl maxd dm [(num, px, py)] (QLeaf i ps) = Some (QLeaf i (ps @ [(num, px, py)]))"
  by (subst addNodes.simps) simp

lemma remove_num_Some:
  "remove_num num ps = Some ps' \<Longrightarrow> (\<exists>a b. mset ps = add_mset (num, a, b) (mset ps')) \<and> set ps' \<subseteq> set ps \<and>
   length ps = Suc (length ps')"
  by (induction num ps arbitrary: ps' rule: remove_num.induct) (auto split: if_splits)

lemma remove_num_append:
  "num \<notin> fst ` set ps \<Longrightarrow> remove_num num (ps @ [(num, a, b)]) = Some ps"
  by (induction ps) auto

lemma qinv_replace_child:
  assumes "qinv (QSplit i ll lr ul ur)"
  shows "qinv c \<Longrightarrow> set (qpoints c) \<subseteq> set (qpoints ll) \<Longrightarrow> qinv (QSplit i c lr ul ur)"
    "qinv c \<Longrightarrow> set (qpoints c) \<subseteq> set (qpoints lr) \<Longrightarrow> qinv (QSplit i ll c ul ur)"
    "qinv c \<Longrightarrow> set (qpoints c) \<subseteq> set (qpoints ul) \<Longrightarrow> qinv (QSplit i ll lr c ur)"
    "qinv c \<Longrightarrow> set (qpoints c) \<subseteq> set (qpoints ur) \<Longrightarrow> qinv (QSplit i ll lr ul c)"
  using assms by (simp_all only: qinv.simps) blast+

lemma deleteNode_spec:
  "deleteNode num p t = (r, t') \<Longrightarrow>
   (if r then \<exists>a b. mset (qpoints t) = add_mset (num, a, b) (mset (qpoints t')) else t' = t) \<and>
   set (qpoints t') \<subseteq> set (qpoints t) \<and> (qinv t \<longrightarrow> qinv t') \<and> (qcap npl t \<longrightarrow> qcap npl t')"
proof (induction num p t arbitrary: r t' rule: deleteNode.induct)
  case (1 num px py i ll lr ul ur)
  note q = qinv_replace_child[of i ll lr ul ur]
  show ?case
  proof (cases "px < q_x i \<and> py < q_y i")
    case True
    obtain r1 c where d: "deleteNode num (px, py) ll = (r1, c)" by fastforce
    with 1 True show ?thesis using q(1) by (auto simp: d)
  next
    case F1: False
    show ?thesis
    proof (cases "px < q_x i")
      case True
      obtain r1 c where d: "deleteNode num (px, py) ul = (r1, c)" by fastforce
      with 1 F1 True show ?thesis using q(3) by (auto simp: d)
    next
      case F2: False
      show ?thesis
      proof (cases "py < q_y i")
        case True
        obtain r1 c where d: "deleteNode num (px, py) lr = (r1, c)" by fastforce
        with 1 F1 F2 True show ?thesis using q(2) by (auto simp: d)
      next
        case False
        obtain r1 c where d: "deleteNode num (px, py) ur = (r1, c)" by fastforce
        with 1 F1 F2 False show ?thesis using q(4) by (auto simp: d)
      qed
    qed
  qed
next
  case (2 num pt i ps)
  then show ?case
    by (auto split: option.splits dest!: remove_num_Some)
qed

subsection \<open>Properties of addNode, deleteNode and findClosest\<close>

text \<open>C14. addNode adds the point when the leaf it is routed to has room; when that leaf is full
  it splits it and re-adds the leaf's old points, and the new point is not stored.\<close>

theorem addNode_points:
  assumes "qinv t" "qcap npl t" "addNode npl maxd dm num (px, py) t = Some t'"
  shows "mset (qpoints t') = mset (qpoints t) +
           (if length (snd (qtarget (px, py) t)) < npl then {#(num, px, py)#} else {#}) \<and>
         qinv t' \<and> qcap npl t'"
proof (cases "length (snd (qtarget (px, py) t)) < npl")
  case True
  then show ?thesis using addNodes_room[OF True, of maxd dm num] assms by (auto simp: addNode_def)
next
  case False
  then show ?thesis using addNodes_full[of npl px py t maxd dm num] assms by (auto simp: addNode_def)
qed

text \<open>C15. addNode returns exactly when the target leaf has room or the split of the target
  leaf is defined: the shifts it computes stay in 0..30, i.e. the leaf is at least two levels
  above MAX_DEPTH.\<close>

theorem addNode_returns:
  assumes "qcap npl t"
  shows "addNode npl maxd dm num p t \<noteq> None \<longleftrightarrow>
           length (snd (qtarget p t)) < npl \<or>
           (0 \<le> maxd \<and> maxd < 31 \<and> q_level (fst (qtarget p t)) + 2 \<le> maxd \<and>
            maxd < q_level (fst (qtarget p t)) + 32)"
proof -
  obtain px py where p: "p = (px, py)" by fastforce
  show ?thesis
  proof (cases "length (snd (qtarget p t)) < npl")
    case True
    then show ?thesis using addNodes_room[of px py t npl maxd dm num] by (auto simp: addNode_def p)
  next
    case False
    then show ?thesis
      using addNodes_full[of npl px py t maxd dm num] assms qsplit_Some_iff[of maxd dm "fst (qtarget p t)"]
      by (simp add: addNode_def p)
  qed
qed

text \<open>C16. findClosest returns the smallest of MAX_QUAD_DISTANCE and the distances to the stored
  points, with the number of a point at that distance, or (0, MAX_QUAD_DISTANCE).\<close>

theorem findClosest_nearest:
  assumes "qinv t" "findClosest p t = (idx, d)"
  shows "d = Min (insert MAX_QUAD_DISTANCE ((\<lambda>(n, a, b). pdist p (a, b)) ` set (qpoints t))) \<and>
         ((idx, d) = (0, MAX_QUAD_DISTANCE) \<or> (\<exists>a b. (idx, a, b) \<in> set (qpoints t) \<and> pdist p (a, b) = d))"
proof -
  have "closest_spec p (set (qpoints t)) (0, MAX_QUAD_DISTANCE) (idx, d)"
    using findClosestRec_spec[OF assms(1), of p "(0, MAX_QUAD_DISTANCE)"] assms(2)
    unfolding findClosest_def by simp
  then show ?thesis unfolding closest_spec_def fst_conv snd_conv by blast
qed

text \<open>C17. deleteNode removes one point with the given number, or returns false and the same tree,
  and keeps the routing invariant.\<close>

theorem deleteNode_removes:
  assumes "qinv t" "deleteNode num p t = (r, t')"
  shows "qinv t' \<and> (if r then \<exists>a b. mset (qpoints t) = add_mset (num, a, b) (mset (qpoints t')) else t' = t)"
  using deleteNode_spec[OF assms(2)] assms(1) by blast

lemma addNodes_deleteNode:
  "length (snd (qtarget (px, py) t)) < npl \<Longrightarrow> num \<notin> fst ` set (snd (qtarget (px, py) t)) \<Longrightarrow>
   addNodes npl maxd dm [(num, px, py)] t = Some t' \<Longrightarrow> deleteNode num (px, py) t' = (True, t)"
proof (induction t arbitrary: t')
  case (QLeaf i ps)
  then show ?case by (auto simp: addNodes_leaf_room remove_num_append)
next
  case (QSplit i ll lr ul ur)
  then show ?case by (auto simp: addNodes_split split: if_splits)
qed

text \<open>C18. Deleting a point just added to a leaf with room, whose number the leaf does not hold,
  gives back the tree and true.\<close>

theorem addNode_deleteNode:
  assumes "length (snd (qtarget (px, py) t)) < npl" "num \<notin> fst ` set (snd (qtarget (px, py) t))"
    "addNode npl maxd dm num (px, py) t = Some t'"
  shows "deleteNode num (px, py) t' = (True, t)"
  using addNodes_deleteNode[OF assms(1,2)] assms(3) by (simp add: addNode_def)

subsection \<open>Witnesses\<close>


lemma addNode_points_witness:
  "addNode 1 10 \<lparr>xlow = 0, xhigh = 1, ylow = 0, yhigh = 1\<rparr> 2 (4/5, 4/5) (QLeaf \<lparr>q_u = 0, q_v = 0, q_level = 0, q_x = 1/2, q_y = 1/2\<rparr> [(1, 1/5, 1/5)]) = Some (QSplit \<lparr>q_u = 0, q_v = 0, q_level = 0, q_x = 1/2, q_y = 1/2\<rparr>
             (QLeaf \<lparr>q_u = 0, q_v = 0, q_level = 1, q_x = 1/4, q_y = 1/4\<rparr> [(1, 1/5, 1/5)])
             (QLeaf \<lparr>q_u = 512, q_v = 0, q_level = 1, q_x = 3/4, q_y = 1/4\<rparr> [])
             (QLeaf \<lparr>q_u = 0, q_v = 512, q_level = 1, q_x = 1/4, q_y = 3/4\<rparr> [])
             (QLeaf \<lparr>q_u = 512, q_v = 512, q_level = 1, q_x = 3/4, q_y = 3/4\<rparr> [])) \<and> mset (qpoints (QSplit \<lparr>q_u = 0, q_v = 0, q_level = 0, q_x = 1/2, q_y = 1/2\<rparr>
             (QLeaf \<lparr>q_u = 0, q_v = 0, q_level = 1, q_x = 1/4, q_y = 1/4\<rparr> [(1, 1/5, 1/5)])
             (QLeaf \<lparr>q_u = 512, q_v = 0, q_level = 1, q_x = 3/4, q_y = 1/4\<rparr> [])
             (QLeaf \<lparr>q_u = 0, q_v = 512, q_level = 1, q_x = 1/4, q_y = 3/4\<rparr> [])
             (QLeaf \<lparr>q_u = 512, q_v = 512, q_level = 1, q_x = 3/4, q_y = 3/4\<rparr> []))) = mset (qpoints (QLeaf \<lparr>q_u = 0, q_v = 0, q_level = 0, q_x = 1/2, q_y = 1/2\<rparr> [(1, 1/5, 1/5)]))"
proof -
  have e: "addNode 1 10 \<lparr>xlow = 0, xhigh = 1, ylow = 0, yhigh = 1\<rparr> 2 (4/5, 4/5) (QLeaf \<lparr>q_u = 0, q_v = 0, q_level = 0, q_x = 1/2, q_y = 1/2\<rparr> [(1, 1/5, 1/5)]) = Some (QSplit \<lparr>q_u = 0, q_v = 0, q_level = 0, q_x = 1/2, q_y = 1/2\<rparr>
             (QLeaf \<lparr>q_u = 0, q_v = 0, q_level = 1, q_x = 1/4, q_y = 1/4\<rparr> [(1, 1/5, 1/5)])
             (QLeaf \<lparr>q_u = 512, q_v = 0, q_level = 1, q_x = 3/4, q_y = 1/4\<rparr> [])
             (QLeaf \<lparr>q_u = 0, q_v = 512, q_level = 1, q_x = 1/4, q_y = 3/4\<rparr> [])
             (QLeaf \<lparr>q_u = 512, q_v = 512, q_level = 1, q_x = 3/4, q_y = 3/4\<rparr> []))"
    by (simp add: addNode_def addNodes_leaf_full qsplit_def qinitialize_def qshift_def Let_def
      addNodes_split addNodes_leaf_room)
  have "qinv (QLeaf \<lparr>q_u = 0, q_v = 0, q_level = 0, q_x = 1/2, q_y = 1/2\<rparr> [(1, 1/5, 1/5)])" "qcap 1 (QLeaf \<lparr>q_u = 0, q_v = 0, q_level = 0, q_x = 1/2, q_y = 1/2\<rparr> [(1, 1/5, 1/5)])" by simp_all
  from addNode_points[OF this e] e show ?thesis by simp
qed

lemma addNode_returns_witness:
  "qcap 1 (QLeaf \<lparr>q_u = 0, q_v = 0, q_level = 0, q_x = 1/2, q_y = 1/2\<rparr> [(1, 1/5, 1/5)]) \<and> addNode 1 10 \<lparr>xlow = 0, xhigh = 1, ylow = 0, yhigh = 1\<rparr> 2 (4/5, 4/5) (QLeaf \<lparr>q_u = 0, q_v = 0, q_level = 0, q_x = 1/2, q_y = 1/2\<rparr> [(1, 1/5, 1/5)]) \<noteq> None \<and> addNode 1 1 \<lparr>xlow = 0, xhigh = 1, ylow = 0, yhigh = 1\<rparr> 2 (4/5, 4/5) (QLeaf \<lparr>q_u = 0, q_v = 0, q_level = 0, q_x = 1/2, q_y = 1/2\<rparr> [(1, 1/5, 1/5)]) = None"
  using addNode_returns[where npl = 1 and t = "(QLeaf \<lparr>q_u = 0, q_v = 0, q_level = 0, q_x = 1/2, q_y = 1/2\<rparr> [(1, 1/5, 1/5)])" and maxd = 10 and dm = "\<lparr>xlow = 0, xhigh = 1, ylow = 0, yhigh = 1\<rparr>" and num = 2 and p = "(4/5, 4/5)"]
    addNode_returns[where npl = 1 and t = "(QLeaf \<lparr>q_u = 0, q_v = 0, q_level = 0, q_x = 1/2, q_y = 1/2\<rparr> [(1, 1/5, 1/5)])" and maxd = 1 and dm = "\<lparr>xlow = 0, xhigh = 1, ylow = 0, yhigh = 1\<rparr>" and num = 2 and p = "(4/5, 4/5)"]
  by simp

lemma findClosest_nearest_witness:
  "findClosest (1/5, 1/5) (QSplit \<lparr>q_u = 0, q_v = 0, q_level = 0, q_x = 1/2, q_y = 1/2\<rparr>
             (QLeaf \<lparr>q_u = 0, q_v = 0, q_level = 1, q_x = 1/4, q_y = 1/4\<rparr> [(1, 1/5, 1/5)])
             (QLeaf \<lparr>q_u = 512, q_v = 0, q_level = 1, q_x = 3/4, q_y = 1/4\<rparr> [])
             (QLeaf \<lparr>q_u = 0, q_v = 512, q_level = 1, q_x = 1/4, q_y = 3/4\<rparr> [])
             (QLeaf \<lparr>q_u = 512, q_v = 512, q_level = 1, q_x = 3/4, q_y = 3/4\<rparr> [])) = (1, 0) \<and>
   0 = Min (insert MAX_QUAD_DISTANCE ((\<lambda>(n, a, b). pdist (1/5, 1/5) (a, b)) ` set (qpoints (QSplit \<lparr>q_u = 0, q_v = 0, q_level = 0, q_x = 1/2, q_y = 1/2\<rparr>
             (QLeaf \<lparr>q_u = 0, q_v = 0, q_level = 1, q_x = 1/4, q_y = 1/4\<rparr> [(1, 1/5, 1/5)])
             (QLeaf \<lparr>q_u = 512, q_v = 0, q_level = 1, q_x = 3/4, q_y = 1/4\<rparr> [])
             (QLeaf \<lparr>q_u = 0, q_v = 512, q_level = 1, q_x = 1/4, q_y = 3/4\<rparr> [])
             (QLeaf \<lparr>q_u = 512, q_v = 512, q_level = 1, q_x = 3/4, q_y = 3/4\<rparr> [])))))"
proof -
  have e: "findClosest (1/5, 1/5) (QSplit \<lparr>q_u = 0, q_v = 0, q_level = 0, q_x = 1/2, q_y = 1/2\<rparr>
             (QLeaf \<lparr>q_u = 0, q_v = 0, q_level = 1, q_x = 1/4, q_y = 1/4\<rparr> [(1, 1/5, 1/5)])
             (QLeaf \<lparr>q_u = 512, q_v = 0, q_level = 1, q_x = 3/4, q_y = 1/4\<rparr> [])
             (QLeaf \<lparr>q_u = 0, q_v = 512, q_level = 1, q_x = 1/4, q_y = 3/4\<rparr> [])
             (QLeaf \<lparr>q_u = 512, q_v = 512, q_level = 1, q_x = 3/4, q_y = 3/4\<rparr> [])) = (1, 0)"
    by (simp add: findClosest_def MAX_QUAD_DISTANCE_def pdist_def)
  have "qinv (QSplit \<lparr>q_u = 0, q_v = 0, q_level = 0, q_x = 1/2, q_y = 1/2\<rparr>
             (QLeaf \<lparr>q_u = 0, q_v = 0, q_level = 1, q_x = 1/4, q_y = 1/4\<rparr> [(1, 1/5, 1/5)])
             (QLeaf \<lparr>q_u = 512, q_v = 0, q_level = 1, q_x = 3/4, q_y = 1/4\<rparr> [])
             (QLeaf \<lparr>q_u = 0, q_v = 512, q_level = 1, q_x = 1/4, q_y = 3/4\<rparr> [])
             (QLeaf \<lparr>q_u = 512, q_v = 512, q_level = 1, q_x = 3/4, q_y = 3/4\<rparr> []))" by simp
  from findClosest_nearest[OF this e] e show ?thesis by blast
qed

lemma deleteNode_removes_witness:
  "deleteNode 1 (1/5, 1/5) (QSplit \<lparr>q_u = 0, q_v = 0, q_level = 0, q_x = 1/2, q_y = 1/2\<rparr>
             (QLeaf \<lparr>q_u = 0, q_v = 0, q_level = 1, q_x = 1/4, q_y = 1/4\<rparr> [(1, 1/5, 1/5)])
             (QLeaf \<lparr>q_u = 512, q_v = 0, q_level = 1, q_x = 3/4, q_y = 1/4\<rparr> [])
             (QLeaf \<lparr>q_u = 0, q_v = 512, q_level = 1, q_x = 1/4, q_y = 3/4\<rparr> [])
             (QLeaf \<lparr>q_u = 512, q_v = 512, q_level = 1, q_x = 3/4, q_y = 3/4\<rparr> [])) = (True, (QSplit \<lparr>q_u = 0, q_v = 0, q_level = 0, q_x = 1/2, q_y = 1/2\<rparr>
             (QLeaf \<lparr>q_u = 0, q_v = 0, q_level = 1, q_x = 1/4, q_y = 1/4\<rparr> [])
             (QLeaf \<lparr>q_u = 512, q_v = 0, q_level = 1, q_x = 3/4, q_y = 1/4\<rparr> [])
             (QLeaf \<lparr>q_u = 0, q_v = 512, q_level = 1, q_x = 1/4, q_y = 3/4\<rparr> [])
             (QLeaf \<lparr>q_u = 512, q_v = 512, q_level = 1, q_x = 3/4, q_y = 3/4\<rparr> []))) \<and> qinv (QSplit \<lparr>q_u = 0, q_v = 0, q_level = 0, q_x = 1/2, q_y = 1/2\<rparr>
             (QLeaf \<lparr>q_u = 0, q_v = 0, q_level = 1, q_x = 1/4, q_y = 1/4\<rparr> [])
             (QLeaf \<lparr>q_u = 512, q_v = 0, q_level = 1, q_x = 3/4, q_y = 1/4\<rparr> [])
             (QLeaf \<lparr>q_u = 0, q_v = 512, q_level = 1, q_x = 1/4, q_y = 3/4\<rparr> [])
             (QLeaf \<lparr>q_u = 512, q_v = 512, q_level = 1, q_x = 3/4, q_y = 3/4\<rparr> []))"
proof -
  have e: "deleteNode 1 (1/5, 1/5) (QSplit \<lparr>q_u = 0, q_v = 0, q_level = 0, q_x = 1/2, q_y = 1/2\<rparr>
             (QLeaf \<lparr>q_u = 0, q_v = 0, q_level = 1, q_x = 1/4, q_y = 1/4\<rparr> [(1, 1/5, 1/5)])
             (QLeaf \<lparr>q_u = 512, q_v = 0, q_level = 1, q_x = 3/4, q_y = 1/4\<rparr> [])
             (QLeaf \<lparr>q_u = 0, q_v = 512, q_level = 1, q_x = 1/4, q_y = 3/4\<rparr> [])
             (QLeaf \<lparr>q_u = 512, q_v = 512, q_level = 1, q_x = 3/4, q_y = 3/4\<rparr> [])) = (True, (QSplit \<lparr>q_u = 0, q_v = 0, q_level = 0, q_x = 1/2, q_y = 1/2\<rparr>
             (QLeaf \<lparr>q_u = 0, q_v = 0, q_level = 1, q_x = 1/4, q_y = 1/4\<rparr> [])
             (QLeaf \<lparr>q_u = 512, q_v = 0, q_level = 1, q_x = 3/4, q_y = 1/4\<rparr> [])
             (QLeaf \<lparr>q_u = 0, q_v = 512, q_level = 1, q_x = 1/4, q_y = 3/4\<rparr> [])
             (QLeaf \<lparr>q_u = 512, q_v = 512, q_level = 1, q_x = 3/4, q_y = 3/4\<rparr> [])))" by simp
  have "qinv (QSplit \<lparr>q_u = 0, q_v = 0, q_level = 0, q_x = 1/2, q_y = 1/2\<rparr>
             (QLeaf \<lparr>q_u = 0, q_v = 0, q_level = 1, q_x = 1/4, q_y = 1/4\<rparr> [(1, 1/5, 1/5)])
             (QLeaf \<lparr>q_u = 512, q_v = 0, q_level = 1, q_x = 3/4, q_y = 1/4\<rparr> [])
             (QLeaf \<lparr>q_u = 0, q_v = 512, q_level = 1, q_x = 1/4, q_y = 3/4\<rparr> [])
             (QLeaf \<lparr>q_u = 512, q_v = 512, q_level = 1, q_x = 3/4, q_y = 3/4\<rparr> []))" by simp
  from deleteNode_removes[OF this e] e show ?thesis by blast
qed

lemma addNode_deleteNode_witness:
  "addNode 1 10 \<lparr>xlow = 0, xhigh = 1, ylow = 0, yhigh = 1\<rparr> 2 (4/5, 4/5) (QLeaf \<lparr>q_u = 0, q_v = 0, q_level = 0, q_x = 1/2, q_y = 1/2\<rparr> []) = Some (QLeaf \<lparr>q_u = 0, q_v = 0, q_level = 0, q_x = 1/2, q_y = 1/2\<rparr> [(2, 4/5, 4/5)]) \<and>
   deleteNode 2 (4/5, 4/5) (QLeaf \<lparr>q_u = 0, q_v = 0, q_level = 0, q_x = 1/2, q_y = 1/2\<rparr> [(2, 4/5, 4/5)]) = (True, QLeaf \<lparr>q_u = 0, q_v = 0, q_level = 0, q_x = 1/2, q_y = 1/2\<rparr> [])"
proof -
  have e: "addNode 1 10 \<lparr>xlow = 0, xhigh = 1, ylow = 0, yhigh = 1\<rparr> 2 (4/5, 4/5) (QLeaf \<lparr>q_u = 0, q_v = 0, q_level = 0, q_x = 1/2, q_y = 1/2\<rparr> []) = Some (QLeaf \<lparr>q_u = 0, q_v = 0, q_level = 0, q_x = 1/2, q_y = 1/2\<rparr> [(2, 4/5, 4/5)])"
    by (simp add: addNode_def addNodes_leaf_room)
  have "length (snd (qtarget (4/5, 4/5) (QLeaf \<lparr>q_u = 0, q_v = 0, q_level = 0, q_x = 1/2, q_y = 1/2\<rparr> []))) < 1"
    "(2::u32) \<notin> fst ` set (snd (qtarget (4/5, 4/5) (QLeaf \<lparr>q_u = 0, q_v = 0, q_level = 0, q_x = 1/2, q_y = 1/2\<rparr> [])))" by simp_all
  from addNode_deleteNode[OF this e] e show ?thesis by simp
qed

end
