(* ===== verification/Refine.thy ===== *)
theory Refine
  imports Recon
begin

text \<open>
  The refined-field builder (component C5 of the spec), \<open>src/src/TMRGeometry.c\<close>:
  \<open>addRefinedSolution2D\<close> (lines 1815--2002), \<open>addRefinedSolution3D\<close> (2004--2203)
  and the drivers \<open>TMR_ComputeReconSolution\<close> for quadtree and octree forests
  (2440--2773).  For each element the builder reads the coarse values and nodal
  derivatives, computes the enrichment coefficients \<open>ubar\<close> with
  \<open>computeElemRecon2D/3D\<close>, evaluates the field at every knot of the refined
  element (the coarse interpolant plus the enrichment, or the enrichment alone when
  \<open>compute_difference\<close> is set), zeroes the entries of dependent refined nodes and
  adds the element block into the refined vector.  The driver groups the elements
  by the name of their face (volume), computes the weights and nodal derivatives
  of each group, calls the builder for the group, and finally multiplies every
  local entry of the refined vector by the inverse refined weight.

  \<^item> The two forests and the two \<open>TACSAssembler\<close> objects are the record
    \<open>refine_mesh\<close>: the solver \<open>dgelss\<close>, the dependent-node tables, the number of
    variables per node, the orders and knots, the interpolation routines
    \<open>evalInterp\<close>, the element connectivities and node locations, the number of
    elements and the local size of the refined vector.  The grouping of the
    elements by name (\<open>getQuadsWithName\<close>, \<open>getOctsWithName\<close> over the sorted
    set of names) is the list \<open>groups\<close> of element lists.
  \<^item> A loop body that reads memory that was never written, or writes past an
    allocation, makes the routine's result undefined: \<open>None\<close>.  Such loops are
    folds in the option monad (\<open>foldM\<close>).  In 3D the array \<open>uref\<close> is allocated
    with \<open>vars_per_node*order^3\<close> entries but cleared and filled with
    \<open>vars_per_node*refined_order^3\<close>, so the builder is \<open>None\<close> as soon as it
    visits an element of a refined mesh of higher order.
  \<^item> The final scaling multiplies by \<open>1.0/w[i]\<close>; a local node that no refined
    element references has weight zero and gets an infinite or NaN value, which
    is not a real number: \<open>None\<close>.
\<close>

record 'i refine_mesh =
  rm_lsq :: lsq_solver
  rm_dep :: deptab
  rm_dep_ref :: deptab
  rm_vpn :: nat
  rm_order :: nat
  rm_rorder :: nat
  rm_knots :: "real list"
  rm_rknots :: "real list"
  rm_interp :: 'i
  rm_interp_ref :: 'i
  rm_conn :: "nat \<Rightarrow> int list"
  rm_conn_ref :: "nat \<Rightarrow> int list"
  rm_xpts :: "nat \<Rightarrow> real list"
  rm_xpts_ref :: "nat \<Rightarrow> real list"
  rm_nelems :: nat
  rm_nsize :: nat

subsection \<open>The refined element block\<close>

text \<open>
  \<open>zeroDep\<close> is the loop that clears the entries of the dependent refined nodes
  (\<open>refined_nodes[i] < 0\<close>) in the element block of \<open>vpn * nn\<close> entries.
\<close>

definition zeroDep :: "nat \<Rightarrow> nat \<Rightarrow> int list \<Rightarrow> real list \<Rightarrow> real list" where
  "zeroDep vpn nn nodes u = map (\<lambda>s. if nodes ! (s div vpn) < 0 then 0 else u ! s) [0..<vpn * nn]"

definition refinedKnot2D ::
  "bool \<Rightarrow> nat \<Rightarrow> nat \<Rightarrow> real list \<Rightarrow> interp2 \<Rightarrow> real list \<Rightarrow> real list \<Rightarrow> nat \<Rightarrow> nat \<Rightarrow> real list" where
  "refinedKnot2D diff vpn order rknots interp uelem ubar m n =
     (let pt = (rknots ! n, rknots ! m);
          Nr = evalEnrichmentFuncs2D (int order) pt rknots
      in map (\<lambda>i. (if diff then 0 else strided_dot uelem vpn i (fst (interp pt)) (order * order))
                  + strided_dot ubar vpn i Nr (getNum2dEnrich (int order))) [0..<vpn])"

text \<open>
  The value-only 2D enrichment routine writes nothing for an order outside 2..4, and
  the loop then reads the uninitialised array \<open>Nr\<close>.
\<close>

definition refinedElem2D ::
  "bool \<Rightarrow> nat \<Rightarrow> nat \<Rightarrow> nat \<Rightarrow> real list \<Rightarrow> interp2 \<Rightarrow> int list \<Rightarrow> real list \<Rightarrow> real list
   \<Rightarrow> real list option" where
  "refinedElem2D diff vpn order rorder rknots interp rnodes uelem ubar =
     (if (order < 2 \<or> 4 < order) \<and> 0 < vpn \<and> 0 < rorder then None
      else Some (zeroDep vpn (rorder * rorder) rnodes
              (concat [refinedKnot2D diff vpn order rknots interp uelem ubar m n.
                         m \<leftarrow> [0..<rorder], n \<leftarrow> [0..<rorder]])))"

definition refinedKnot3D ::
  "bool \<Rightarrow> nat \<Rightarrow> nat \<Rightarrow> real list \<Rightarrow> interp3 \<Rightarrow> real list \<Rightarrow> real list \<Rightarrow> nat \<Rightarrow> nat \<Rightarrow> nat
   \<Rightarrow> real list option" where
  "refinedKnot3D diff vpn order rknots interp uelem ubar p m n =
     (let pt = (rknots ! n, rknots ! m, rknots ! p)
      in map_option
           (\<lambda>Nr. map (\<lambda>i. (if diff then 0 else strided_dot uelem vpn i (fst (interp pt)) (order * order * order))
                          + strided_dot ubar vpn i Nr (getNum3dEnrich (int order))) [0..<vpn])
           (enrichVals3D order pt))"

text \<open>
  \<open>memset(uref, 0, vars_per_node*num_refined_nodes*sizeof(TacsScalar))\<close> runs before
  the knot loops, on an array of \<open>vars_per_node*order^3\<close> entries.
\<close>

definition refinedElem3D ::
  "bool \<Rightarrow> nat \<Rightarrow> nat \<Rightarrow> nat \<Rightarrow> real list \<Rightarrow> interp3 \<Rightarrow> int list \<Rightarrow> real list \<Rightarrow> real list
   \<Rightarrow> real list option" where
  "refinedElem3D diff vpn order rorder rknots interp rnodes uelem ubar =
     (if vpn * (order * order * order) < vpn * (rorder * rorder * rorder) then None
      else map_option (\<lambda>ks. zeroDep vpn (rorder * rorder * rorder) rnodes (concat ks))
             (those [refinedKnot3D diff vpn order rknots interp uelem ubar p m n.
                       p \<leftarrow> [0..<rorder], m \<leftarrow> [0..<rorder], n \<leftarrow> [0..<rorder]]))"

subsection \<open>The builders\<close>

definition addRefinedElem2D ::
  "interp2 refine_mesh \<Rightarrow> bool \<Rightarrow> bvec \<Rightarrow> bvec \<Rightarrow> bvec \<Rightarrow> nat \<Rightarrow> bvec option" where
  "addRefinedElem2D M diff vec vecDeriv v e =
     (let nodes = rm_conn M e;
          uelem = getValues (rm_dep M) (rm_vpn M) nodes vec;
          delem = getValues (rm_dep M) (3 * rm_vpn M) nodes vecDeriv
      in case computeElemRecon2D (rm_lsq M) (rm_vpn M) (rm_order M) (rm_rorder M) (rm_knots M)
                (rm_rknots M) (rm_interp M) (rm_interp_ref M) (rm_xpts_ref M e) uelem delem of
           None \<Rightarrow> None
         | Some ubar \<Rightarrow>
             map_option (\<lambda>uref. setValues_add (rm_dep_ref M) (rm_vpn M) (rm_conn_ref M e) uref v)
               (refinedElem2D diff (rm_vpn M) (rm_order M) (rm_rorder M) (rm_rknots M) (rm_interp M)
                  (rm_conn_ref M e) uelem ubar))"

definition addRefinedSolution2D ::
  "interp2 refine_mesh \<Rightarrow> bvec \<Rightarrow> bvec \<Rightarrow> bvec \<Rightarrow> bool \<Rightarrow> nat list option \<Rightarrow> bvec option" where
  "addRefinedSolution2D M vec vecDeriv vref diff element_nums =
     foldM (addRefinedElem2D M diff vec vecDeriv) vref (elementList (rm_nelems M) element_nums)"

definition addRefinedElem3D ::
  "interp3 refine_mesh \<Rightarrow> bool \<Rightarrow> bvec \<Rightarrow> bvec \<Rightarrow> bvec \<Rightarrow> nat \<Rightarrow> bvec option" where
  "addRefinedElem3D M diff vec vecDeriv v e =
     (let nodes = rm_conn M e;
          uelem = getValues (rm_dep M) (rm_vpn M) nodes vec;
          delem = getValues (rm_dep M) (3 * rm_vpn M) nodes vecDeriv
      in case computeElemRecon3D (rm_lsq M) (rm_vpn M) (rm_order M) (rm_rorder M) (rm_knots M)
                (rm_interp M) (rm_interp_ref M) (rm_xpts_ref M e) uelem delem of
           None \<Rightarrow> None
         | Some ubar \<Rightarrow>
             map_option (\<lambda>uref. setValues_add (rm_dep_ref M) (rm_vpn M) (rm_conn_ref M e) uref v)
               (refinedElem3D diff (rm_vpn M) (rm_order M) (rm_rorder M) (rm_rknots M) (rm_interp M)
                  (rm_conn_ref M e) uelem ubar))"

definition addRefinedSolution3D ::
  "interp3 refine_mesh \<Rightarrow> bvec \<Rightarrow> bvec \<Rightarrow> bvec \<Rightarrow> bool \<Rightarrow> nat list option \<Rightarrow> bvec option" where
  "addRefinedSolution3D M vec vecDeriv vref diff element_nums =
     foldM (addRefinedElem3D M diff vec vecDeriv) vref (elementList (rm_nelems M) element_nums)"

subsection \<open>The drivers\<close>

text \<open>
  The final loop of \<open>TMR_ComputeReconSolution\<close>: every local entry \<open>i < size\<close> is
  multiplied by \<open>1.0/w[i]\<close>.
\<close>

definition scaleByWeights :: "nat \<Rightarrow> nat \<Rightarrow> bvec \<Rightarrow> bvec \<Rightarrow> bvec option" where
  "scaleByWeights vpn nsize w u =
     (if \<exists>i \<in> set [0..<nsize]. w i 0 = 0 then None
      else Some (\<lambda>m c. if m < nsize \<and> c < vpn then u m c * (1 / w m 0) else u m c))"

definition reconGroup2D :: "interp2 refine_mesh \<Rightarrow> bvec \<Rightarrow> bool \<Rightarrow> bvec \<Rightarrow> nat list \<Rightarrow> bvec option" where
  "reconGroup2D M uvec diff v g =
     (let W = computeLocalWeights (rm_dep M) (rm_conn M) (rm_nelems M) (Some g);
          D = computeNodeDeriv2D (rm_dep M) (rm_vpn M) (rm_order M) (rm_knots M) (rm_interp M) (rm_conn M)
                (rm_xpts M) uvec W (rm_nelems M) (Some g)
      in addRefinedSolution2D M uvec D v diff (Some g))"

definition computeReconSolution2D :: "interp2 refine_mesh \<Rightarrow> nat list list \<Rightarrow> bvec \<Rightarrow> bool \<Rightarrow> bvec option" where
  "computeReconSolution2D M groups uvec diff =
     Option.bind (foldM (reconGroup2D M uvec diff) zeroEntries groups)
       (scaleByWeights (rm_vpn M) (rm_nsize M)
          (computeLocalWeights (rm_dep_ref M) (rm_conn_ref M) (rm_nelems M) None))"

definition reconGroup3D :: "interp3 refine_mesh \<Rightarrow> bvec \<Rightarrow> bool \<Rightarrow> bvec \<Rightarrow> nat list \<Rightarrow> bvec option" where
  "reconGroup3D M uvec diff v g =
     (let W = computeLocalWeights (rm_dep M) (rm_conn M) (rm_nelems M) (Some g);
          D = computeNodeDeriv3D (rm_dep M) (rm_vpn M) (rm_order M) (rm_knots M) (rm_interp M) (rm_conn M)
                (rm_xpts M) uvec W (rm_nelems M) (Some g)
      in addRefinedSolution3D M uvec D v diff (Some g))"

definition computeReconSolution3D :: "interp3 refine_mesh \<Rightarrow> nat list list \<Rightarrow> bvec \<Rightarrow> bool \<Rightarrow> bvec option" where
  "computeReconSolution3D M groups uvec diff =
     Option.bind (foldM (reconGroup3D M uvec diff) zeroEntries groups)
       (scaleByWeights (rm_vpn M) (rm_nsize M)
          (computeLocalWeights (rm_dep_ref M) (rm_conn_ref M) (rm_nelems M) None))"

subsection \<open>Sizes and the element blocks\<close>

lemma cube_less_mono:
  "order < rorder \<Longrightarrow> order * order * order < rorder * rorder * rorder"
  for order rorder :: nat
  by (simp add: mult_strict_mono)

lemma addRefinedElem3D_overflow:
  "0 < rm_vpn M \<Longrightarrow> rm_order M < rm_rorder M \<Longrightarrow> addRefinedElem3D M diff vec vecDeriv v e = None"
  by (simp add: addRefinedElem3D_def refinedElem3D_def cube_less_mono Let_def split: option.split)

lemma length_zeroDep [simp]: "length (zeroDep vpn nn nodes u) = vpn * nn"
  by (simp add: zeroDep_def)

lemma zeroDep_slots_zero:
  "length nodes \<le> nn \<Longrightarrow> dep_slots_zero vpn nodes (zeroDep vpn nn nodes u)"
  unfolding dep_slots_zero_def zeroDep_def
  by (auto simp: block_index_less)

text \<open>
  An element block whose dependent slots are zero is added without reading the
  dependent-node table.
\<close>

lemma setValues_add_dep_free:
  assumes "dep_slots_zero bs nodes vals" "bs * length nodes \<le> length vals"
  shows "setValues_add D1 bs nodes vals v = setValues_add D2 bs nodes vals v"
  using setValues_add_apply[OF assms, of D1 v] setValues_add_apply[OF assms, of D2 v] by (intro ext) simp

lemma addRefinedElem2D_dep_free:
  "length (rm_conn_ref M e) \<le> rm_rorder M * rm_rorder M \<Longrightarrow>
   addRefinedElem2D (M\<lparr>rm_dep_ref := D1\<rparr>) diff vec vecDeriv v e =
   addRefinedElem2D (M\<lparr>rm_dep_ref := D2\<rparr>) diff vec vecDeriv v e"
  unfolding addRefinedElem2D_def refinedElem2D_def Let_def
  by (auto split: option.split intro!: setValues_add_dep_free zeroDep_slots_zero)

subsection \<open>Properties of the builders\<close>

text \<open>C19. The 3D builder writes past the array uref: as soon as it visits an element, with at
  least one variable per node and a refined order above the coarse order (the case it is
  written for), addRefinedSolution3D has no defined result.\<close>

theorem addRefinedSolution3D_overflow:
  assumes "0 < rm_vpn M" "rm_order M < rm_rorder M" "elementList (rm_nelems M) element_nums \<noteq> []"
  shows "addRefinedSolution3D M vec vecDeriv vref diff element_nums = None"
proof -
  obtain e es where "elementList (rm_nelems M) element_nums = e # es"
    using assms(3) by (cases "elementList (rm_nelems M) element_nums") auto
  then show ?thesis
    unfolding addRefinedSolution3D_def by (simp add: addRefinedElem3D_overflow[OF assms(1,2)])
qed

text \<open>C20. Hence TMR_ComputeReconSolution on an octree forest has no defined result as soon as
  one volume group holds an element.\<close>

theorem computeReconSolution3D_undefined:
  assumes "0 < rm_vpn M" "rm_order M < rm_rorder M" "g \<in> set groups" "g \<noteq> []"
  shows "computeReconSolution3D M groups uvec diff = None"
proof -
  have "reconGroup3D M uvec diff v g = None" for v
    using assms(4) unfolding reconGroup3D_def Let_def addRefinedSolution3D_def
    by (cases g) (simp_all add: elementList_def addRefinedElem3D_overflow[OF assms(1,2)])
  then show ?thesis
    unfolding computeReconSolution3D_def by (simp add: foldM_None[OF assms(3)])
qed

text \<open>C21. Dependent-node masking (section 8, scenario S6): the 2D builder zeroes the entries of
  the dependent refined nodes before adding the element block, so its result does not depend
  on the dependent-node table of the refined mesh: no value is routed through it.\<close>

theorem addRefinedSolution2D_dep_ref_free:
  assumes "\<forall>e \<in> set (elementList (rm_nelems M) element_nums). length (rm_conn_ref M e) \<le> rm_rorder M * rm_rorder M"
  shows "addRefinedSolution2D (M\<lparr>rm_dep_ref := D1\<rparr>) vec vecDeriv vref diff element_nums =
         addRefinedSolution2D (M\<lparr>rm_dep_ref := D2\<rparr>) vec vecDeriv vref diff element_nums"
proof -
  have "rm_nelems (M\<lparr>rm_dep_ref := D\<rparr>) = rm_nelems M" for D by simp
  then show ?thesis
    unfolding addRefinedSolution2D_def using assms by (auto intro!: foldM_cong addRefinedElem2D_dep_free)
qed

subsection \<open>Witnesses\<close>

lemma addRefinedSolution3D_overflow_witness:
  "addRefinedSolution3D \<lparr>rm_lsq = (\<lambda>m n A b. replicate n 0), rm_dep = (\<lambda>_. []), rm_dep_ref = (\<lambda>_. []),
       rm_vpn = 1, rm_order = 2, rm_rorder = 3, rm_knots = [-1, 1], rm_rknots = [-1, 0, 1],
       rm_interp = (\<lambda>_. ([], [], [], [])), rm_interp_ref = (\<lambda>_. ([], [], [], [])), rm_conn = (\<lambda>_. [0, 1, 2, 3, 4, 5, 6, 7]),
       rm_conn_ref = (\<lambda>_. []), rm_xpts = (\<lambda>_. []), rm_xpts_ref = (\<lambda>_. []),
       rm_nelems = 1, rm_nsize = 0\<rparr> zeroEntries zeroEntries zeroEntries False None = None"
  by (rule addRefinedSolution3D_overflow) (simp_all add: elementList_def)

lemma computeReconSolution3D_undefined_witness:
  "computeReconSolution3D \<lparr>rm_lsq = (\<lambda>m n A b. replicate n 0), rm_dep = (\<lambda>_. []), rm_dep_ref = (\<lambda>_. []),
       rm_vpn = 1, rm_order = 2, rm_rorder = 3, rm_knots = [-1, 1], rm_rknots = [-1, 0, 1],
       rm_interp = (\<lambda>_. ([], [], [], [])), rm_interp_ref = (\<lambda>_. ([], [], [], [])), rm_conn = (\<lambda>_. [0, 1, 2, 3, 4, 5, 6, 7]),
       rm_conn_ref = (\<lambda>_. []), rm_xpts = (\<lambda>_. []), rm_xpts_ref = (\<lambda>_. []),
       rm_nelems = 1, rm_nsize = 0\<rparr> [[], [0]] zeroEntries False = None"
  by (rule computeReconSolution3D_undefined[where g = "[0]"]) simp_all

lemma addRefinedSolution2D_dep_ref_free_witness:
  "addRefinedSolution2D (\<lparr>rm_lsq = (\<lambda>m n A b. replicate n 0), rm_dep = (\<lambda>_. []), rm_dep_ref = (\<lambda>_. []),
       rm_vpn = 1, rm_order = 2, rm_rorder = 2, rm_knots = [-1, 1], rm_rknots = [-1, 1],
       rm_interp = (\<lambda>_. ([], [], [])), rm_interp_ref = (\<lambda>_. ([], [], [])), rm_conn = (\<lambda>_. [0, 1, 2, 3]),
       rm_conn_ref = (\<lambda>_. [0, -1, 1, 2]), rm_xpts = (\<lambda>_. []), rm_xpts_ref = (\<lambda>_. []),
       rm_nelems = 1, rm_nsize = 0\<rparr>\<lparr>rm_dep_ref := (\<lambda>_. [])\<rparr>) zeroEntries zeroEntries zeroEntries False None =
   addRefinedSolution2D (\<lparr>rm_lsq = (\<lambda>m n A b. replicate n 0), rm_dep = (\<lambda>_. []), rm_dep_ref = (\<lambda>_. []),
       rm_vpn = 1, rm_order = 2, rm_rorder = 2, rm_knots = [-1, 1], rm_rknots = [-1, 1],
       rm_interp = (\<lambda>_. ([], [], [])), rm_interp_ref = (\<lambda>_. ([], [], [])), rm_conn = (\<lambda>_. [0, 1, 2, 3]),
       rm_conn_ref = (\<lambda>_. [0, -1, 1, 2]), rm_xpts = (\<lambda>_. []), rm_xpts_ref = (\<lambda>_. []),
       rm_nelems = 1, rm_nsize = 0\<rparr>\<lparr>rm_dep_ref := (\<lambda>_. [(0, 1)])\<rparr>) zeroEntries zeroEntries zeroEntries False None"
  by (rule addRefinedSolution2D_dep_ref_free) (simp add: elementList_def)

end
