(* ===== verification/TriQueue.thy ===== *)
theory TriQueue
  imports Prelude
begin

text \<open>
  The triangle queue of the mesh generator, \<open>TriQueue\<close> in
  \<open>src/src/TMRTriangularize.c\<close> lines 48--146: a singly linked list of
  \<open>TriQueueNode\<close>s with pointers \<open>start\<close> and \<open>end\<close> and a counter \<open>size\<close>, used by
  \<open>findEnclosing\<close> as the work list of its walk over the mesh.

  \<^item> The nodes live in an explicit store \<open>tq_heap\<close> from addresses to the pair
    (triangle, next pointer); \<open>None\<close> is an address that is not allocated (never
    allocated or deleted).  \<open>new TriQueueNode()\<close> returns the fresh address
    \<open>tq_fresh\<close>; \<open>delete\<close> makes an address unallocated.  The triangle pointers are
    values of a type variable.
  \<^item> Dereferencing a null or deleted pointer has no defined result: \<open>None\<close>.
  \<^item> \<open>tq_nodes\<close> follows the next pointers from \<open>start\<close> for \<open>size\<close> steps and
    returns the addresses visited if the walk ends exactly at a null pointer;
    \<open>tq_abs\<close> is the list of triangles the queue holds.
\<close>

type_synonym 'a tq_store = "nat \<Rightarrow> ('a \<times> nat option) option"

record 'a triqueue =
  tq_heap :: "'a tq_store"
  tq_start :: "nat option"
  tq_end :: "nat option"
  tq_size :: int
  tq_fresh :: nat

definition tqInit :: "'a triqueue" where
  "tqInit = \<lparr>tq_heap = (\<lambda>_. None), tq_start = None, tq_end = None, tq_size = 0, tq_fresh = 0\<rparr>"

definition tqPop :: "'a triqueue \<Rightarrow> ('a option \<times> 'a triqueue) option" where
  "tqPop q =
     (case tq_start q of
        None \<Rightarrow> Some (None, q)
      | Some p \<Rightarrow>
          (case tq_heap q p of
             None \<Rightarrow> None
           | Some (t, nx) \<Rightarrow>
               Some (Some t, q\<lparr>tq_heap := (tq_heap q)(p := None), tq_start := nx,
                               tq_size := tq_size q - 1\<rparr>)))"

definition tqAppend :: "'a \<Rightarrow> 'a triqueue \<Rightarrow> 'a triqueue option" where
  "tqAppend t q =
     (let n = tq_fresh q
      in if tq_size q = 0 then
           Some (q\<lparr>tq_heap := (tq_heap q)(n \<mapsto> (t, None)), tq_start := Some n, tq_end := Some n,
                   tq_size := tq_size q + 1, tq_fresh := Suc n\<rparr>)
         else
           (case tq_end q of
              None \<Rightarrow> None
            | Some e \<Rightarrow>
                (case tq_heap q e of
                   None \<Rightarrow> None
                 | Some (te, _) \<Rightarrow>
                     Some (q\<lparr>tq_heap := (tq_heap q)(e \<mapsto> (te, Some n), n \<mapsto> (t, None)),
                             tq_end := Some n, tq_size := tq_size q + 1, tq_fresh := Suc n\<rparr>))))"

definition tqDeleteNext :: "nat option \<Rightarrow> 'a triqueue \<Rightarrow> (int \<times> 'a triqueue) option" where
  "tqDeleteNext node q =
     (case node of
        None \<Rightarrow> Some (0, q)
      | Some a \<Rightarrow>
          (case tq_heap q a of
             None \<Rightarrow> None
           | Some (ta, None) \<Rightarrow> Some (0, q)
           | Some (ta, Some nx) \<Rightarrow>
               (case tq_heap q nx of
                  None \<Rightarrow> None
                | Some (tn, nn) \<Rightarrow>
                    Some (1, q\<lparr>tq_heap := ((tq_heap q)(a \<mapsto> (ta, nn)))(nx := None),
                               tq_size := tq_size q - 1\<rparr>))))"

fun tq_nodes :: "'a tq_store \<Rightarrow> nat option \<Rightarrow> nat \<Rightarrow> nat list option" where
  "tq_nodes h None 0 = Some []"
| "tq_nodes h (Some p) (Suc k) =
     (case h p of None \<Rightarrow> None | Some (t, nx) \<Rightarrow> map_option (Cons p) (tq_nodes h nx k))"
| "tq_nodes h _ _ = None"

definition tq_abs :: "'a triqueue \<Rightarrow> 'a list option" where
  "tq_abs q = map_option (map (\<lambda>p. fst (the (tq_heap q p)))) (tq_nodes (tq_heap q) (tq_start q) (nat (tq_size q)))"

definition tq_inv :: "'a triqueue \<Rightarrow> bool" where
  "tq_inv q \<longleftrightarrow> 0 \<le> tq_size q \<and>
     (case tq_nodes (tq_heap q) (tq_start q) (nat (tq_size q)) of
        None \<Rightarrow> False
      | Some ns \<Rightarrow> distinct ns \<and> (\<forall>p \<in> set ns. p < tq_fresh q) \<and>
                   (ns \<noteq> [] \<longrightarrow> tq_end q = Some (last ns)))"

inductive tq_reach :: "'a triqueue \<Rightarrow> bool" where
  init: "tq_reach tqInit"
| append: "tq_reach q \<Longrightarrow> tqAppend t q = Some q' \<Longrightarrow> tq_reach q'"
| pop: "tq_reach q \<Longrightarrow> tqPop q = Some (r, q') \<Longrightarrow> tq_reach q'"

fun tqPopN :: "nat \<Rightarrow> 'a triqueue \<Rightarrow> ('a list \<times> 'a triqueue) option" where
  "tqPopN 0 q = Some ([], q)"
| "tqPopN (Suc k) q =
     (case tqPop q of
        None \<Rightarrow> None
      | Some (None, q') \<Rightarrow> Some ([], q')
      | Some (Some t, q') \<Rightarrow> map_option (\<lambda>(ts, q''). (t # ts, q'')) (tqPopN k q'))"

subsection \<open>The chain of nodes\<close>

lemma tq_nodes_Some_set:
  "tq_nodes h s k = Some ns \<Longrightarrow> length ns = k \<and> (\<forall>p \<in> set ns. h p \<noteq> None)"
  by (induction h s k arbitrary: ns rule: tq_nodes.induct) (auto split: option.splits)

lemma tq_nodes_update_outside:
  "tq_nodes h s k = Some ns \<Longrightarrow> p \<notin> set ns \<Longrightarrow> tq_nodes (h(p := x)) s k = Some ns"
  by (induction h s k arbitrary: ns rule: tq_nodes.induct) (auto split: option.splits)

lemma tq_nodes_Nil_iff: "tq_nodes h s k = Some [] \<longleftrightarrow> s = None \<and> k = 0"
  by (cases "(h, s, k)" rule: tq_nodes.cases) (auto split: option.splits)

lemma tq_nodes_Cons_iff:
  "tq_nodes h s k = Some (p # rest) \<longleftrightarrow>
   s = Some p \<and> (\<exists>k' t0 nx. k = Suc k' \<and> h p = Some (t0, nx) \<and> tq_nodes h nx k' = Some rest)"
  by (cases "(h, s, k)" rule: tq_nodes.cases) (auto split: option.splits)

lemma tq_nodes_snoc:
  "tq_nodes h s k = Some ns \<Longrightarrow> distinct ns \<Longrightarrow> ns \<noteq> [] \<Longrightarrow> h (last ns) = Some (te, None) \<Longrightarrow>
   n \<notin> set ns \<Longrightarrow> tq_nodes (h(last ns \<mapsto> (te, Some n), n \<mapsto> (t, None))) s (Suc k) = Some (ns @ [n])"
proof (induction ns arbitrary: s k)
  case (Cons p rest)
  then obtain k' t0 nx where s: "s = Some p" "k = Suc k'" "h p = Some (t0, nx)" "tq_nodes h nx k' = Some rest"
    by (auto simp: tq_nodes_Cons_iff)
  show ?case
  proof (cases rest)
    case Nil
    with s have "nx = None" "k' = 0" by (simp_all add: tq_nodes_Nil_iff)
    with Cons.prems s Nil show ?thesis by simp
  next
    case (Cons r rs)
    with Cons.prems have "last (p # rest) = last rest" "p \<noteq> last rest" "p \<noteq> n"
      by (auto dest: last_in_set)
    moreover have "tq_nodes (h(last rest \<mapsto> (te, Some n), n \<mapsto> (t, None))) nx (Suc k') = Some (rest @ [n])"
    proof (rule Cons.IH[OF s(4)])
      show "distinct rest" "rest \<noteq> []" "n \<notin> set rest" using Cons.prems Cons by auto
      show "h (last rest) = Some (te, None)"
        using Cons.prems(4) \<open>last (p # rest) = last rest\<close> by simp
    qed
    ultimately show ?thesis
      using s by (simp del: fun_upd_apply add: fun_upd_other)
  qed
qed simp

lemma tq_nodes_last:
  "tq_nodes h s k = Some ns \<Longrightarrow> ns \<noteq> [] \<Longrightarrow> \<exists>te. h (last ns) = Some (te, None)"
proof (induction ns arbitrary: s k)
  case (Cons p rest)
  then obtain k' t0 nx where "s = Some p" "h p = Some (t0, nx)" "tq_nodes h nx k' = Some rest"
    by (auto simp: tq_nodes_Cons_iff)
  with Cons show ?case by (cases rest) (auto simp: tq_nodes_Nil_iff)
qed simp

lemma tq_inv_nodes:
  "tq_inv q \<Longrightarrow> \<exists>ns. tq_nodes (tq_heap q) (tq_start q) (nat (tq_size q)) = Some ns \<and> distinct ns \<and>
     (\<forall>p \<in> set ns. p < tq_fresh q) \<and> (ns \<noteq> [] \<longrightarrow> tq_end q = Some (last ns)) \<and> 0 \<le> tq_size q"
  unfolding tq_inv_def by (auto split: option.splits)

lemma tqAppend_nodes:
  assumes inv: "tq_inv q" and ns: "tq_nodes (tq_heap q) (tq_start q) (nat (tq_size q)) = Some ns"
  shows "\<exists>q'. tqAppend t q = Some q' \<and> tq_inv q' \<and>
           tq_nodes (tq_heap q') (tq_start q') (nat (tq_size q')) = Some (ns @ [tq_fresh q]) \<and>
           tq_heap q' (tq_fresh q) = Some (t, None) \<and>
           (\<forall>p \<in> set ns. fst (the (tq_heap q' p)) = fst (the (tq_heap q p)))"
proof -
  obtain ns' where I: "tq_nodes (tq_heap q) (tq_start q) (nat (tq_size q)) = Some ns'" "distinct ns'"
    "\<forall>p \<in> set ns'. p < tq_fresh q" "ns' \<noteq> [] \<longrightarrow> tq_end q = Some (last ns')" "0 \<le> tq_size q"
    using tq_inv_nodes[OF inv] by blast
  from I(1) ns have [simp]: "ns' = ns" by simp
  have len: "length ns = nat (tq_size q)" using tq_nodes_Some_set[OF ns] by simp
  have fresh: "tq_fresh q \<notin> set ns" using I(3) by auto
  show ?thesis
  proof (cases "tq_size q = 0")
    case True
    then have "ns = []" using len by simp
    with True show ?thesis by (simp add: tqAppend_def tq_inv_def Let_def)
  next
    case False
    then have ne: "ns \<noteq> []" using len I(5) by auto
    obtain te where te: "tq_heap q (last ns) = Some (te, None)" using tq_nodes_last[OF ns ne] by blast
    have sz: "nat (tq_size q + 1) = Suc (nat (tq_size q))" using I(5) by simp
    have chain: "tq_nodes ((tq_heap q)(last ns \<mapsto> (te, Some (tq_fresh q)), tq_fresh q \<mapsto> (t, None)))
                   (tq_start q) (Suc (nat (tq_size q))) = Some (ns @ [tq_fresh q])"
      by (rule tq_nodes_snoc[OF ns I(2)[simplified] ne te fresh])
    have ln: "last ns \<noteq> tq_fresh q" using fresh ne last_in_set by metis
    let ?q' = "q\<lparr>tq_heap := (tq_heap q)(last ns \<mapsto> (te, Some (tq_fresh q)), tq_fresh q \<mapsto> (t, None)),
                 tq_end := Some (tq_fresh q), tq_size := tq_size q + 1, tq_fresh := Suc (tq_fresh q)\<rparr>"
    have app: "tqAppend t q = Some ?q'"
      using False I(4) ne te by (simp add: tqAppend_def Let_def)
    have "tq_inv ?q'"
      using chain I(2,3,5) fresh by (auto simp: tq_inv_def sz less_Suc_eq)
    then show ?thesis
      using app chain ln sz te fresh by (intro exI[of _ ?q']) auto
  qed
qed

lemma tqPop_nodes:
  assumes inv: "tq_inv q" and ns: "tq_nodes (tq_heap q) (tq_start q) (nat (tq_size q)) = Some (p # rest)"
  shows "\<exists>q'. tqPop q = Some (Some (fst (the (tq_heap q p))), q') \<and> tq_inv q' \<and>
           tq_nodes (tq_heap q') (tq_start q') (nat (tq_size q')) = Some rest \<and>
           (\<forall>r \<in> set rest. tq_heap q' r = tq_heap q r)"
proof -
  obtain I: "distinct (p # rest)" "\<forall>r \<in> set (p # rest). r < tq_fresh q"
    "tq_end q = Some (last (p # rest))" "0 \<le> tq_size q"
    using tq_inv_nodes[OF inv] ns by auto
  obtain k' t0 nx where s: "tq_start q = Some p" "nat (tq_size q) = Suc k'" "tq_heap q p = Some (t0, nx)"
    "tq_nodes (tq_heap q) nx k' = Some rest"
    using ns by (auto simp: tq_nodes_Cons_iff)
  have k': "nat (tq_size q - 1) = k'" using s(2) by simp
  have rest: "tq_nodes ((tq_heap q)(p := None)) nx k' = Some rest"
    using tq_nodes_update_outside[OF s(4)] I(1) by simp
  show ?thesis
    using I s k' rest by (auto simp: tqPop_def tq_inv_def)
qed

lemma tq_nodes_next:
  "tq_nodes h s k = Some ns \<Longrightarrow> Suc i < length ns \<Longrightarrow> \<exists>t. h (ns ! i) = Some (t, Some (ns ! Suc i))"
proof (induction ns arbitrary: s k i)
  case (Cons p rest)
  then obtain k' t0 nx where s: "h p = Some (t0, nx)" "tq_nodes h nx k' = Some rest"
    by (auto simp: tq_nodes_Cons_iff)
  show ?case
  proof (cases i)
    case 0
    with Cons.prems obtain r rs where "rest = r # rs" by (cases rest) auto
    with s show ?thesis using 0 by (auto simp: tq_nodes_Cons_iff)
  next
    case (Suc j)
    with Cons.IH[OF s(2), of j] Cons.prems show ?thesis by simp
  qed
qed simp

lemma tq_abs_nodes:
  "tq_abs q = Some xs \<longleftrightarrow>
   (\<exists>ns. tq_nodes (tq_heap q) (tq_start q) (nat (tq_size q)) = Some ns \<and> xs = map (\<lambda>p. fst (the (tq_heap q p))) ns)"
  unfolding tq_abs_def by auto

lemma tqPopN_nodes:
  "tq_inv q \<Longrightarrow> tq_nodes (tq_heap q) (tq_start q) (nat (tq_size q)) = Some ns \<Longrightarrow>
   \<exists>q'. tqPopN (length ns) q = Some (map (\<lambda>p. fst (the (tq_heap q p))) ns, q') \<and> tq_inv q' \<and>
        tq_nodes (tq_heap q') (tq_start q') (nat (tq_size q')) = Some []"
proof (induction ns arbitrary: q)
  case Nil
  then show ?case by simp
next
  case (Cons p rest)
  obtain q' where q': "tqPop q = Some (Some (fst (the (tq_heap q p))), q')" "tq_inv q'"
    "tq_nodes (tq_heap q') (tq_start q') (nat (tq_size q')) = Some rest" "\<forall>r \<in> set rest. tq_heap q' r = tq_heap q r"
    using tqPop_nodes[OF Cons.prems] by blast
  obtain q'' where "tqPopN (length rest) q' = Some (map (\<lambda>r. fst (the (tq_heap q' r))) rest, q'')"
    "tq_inv q''" "tq_nodes (tq_heap q'') (tq_start q'') (nat (tq_size q'')) = Some []"
    using Cons.IH[OF q'(2,3)] by blast
  moreover have "map (\<lambda>r. fst (the (tq_heap q' r))) rest = map (\<lambda>r. fst (the (tq_heap q r))) rest"
    using q'(4) by simp
  ultimately show ?case using q'(1) by auto
qed

subsection \<open>Properties of the queue\<close>

text \<open>C22. append refines appending to the list of queued triangles: from a well-formed queue it
  returns a well-formed queue holding the old triangles followed by the new one.\<close>

theorem tqAppend_fifo:
  assumes "tq_inv q" "tq_abs q = Some xs"
  shows "\<exists>q'. tqAppend t q = Some q' \<and> tq_inv q' \<and> tq_abs q' = Some (xs @ [t])"
proof -
  obtain ns where ns: "tq_nodes (tq_heap q) (tq_start q) (nat (tq_size q)) = Some ns"
    and xs: "xs = map (\<lambda>p. fst (the (tq_heap q p))) ns"
    using assms(2) by (auto simp: tq_abs_nodes)
  obtain q' where "tqAppend t q = Some q'" "tq_inv q'"
    "tq_nodes (tq_heap q') (tq_start q') (nat (tq_size q')) = Some (ns @ [tq_fresh q])"
    "tq_heap q' (tq_fresh q) = Some (t, None)" "\<forall>p \<in> set ns. fst (the (tq_heap q' p)) = fst (the (tq_heap q p))"
    using tqAppend_nodes[OF assms(1) ns] by blast
  then show ?thesis using xs by (auto simp: tq_abs_nodes)
qed

text \<open>C23. pop refines taking the head of the list: it returns the first queued triangle (a null
  pointer on an empty queue) and a well-formed queue holding the rest.\<close>

theorem tqPop_fifo:
  assumes "tq_inv q" "tq_abs q = Some xs"
  shows "\<exists>q'. tqPop q = Some (if xs = [] then None else Some (hd xs), q') \<and> tq_inv q' \<and> tq_abs q' = Some (tl xs)"
proof -
  obtain ns where ns: "tq_nodes (tq_heap q) (tq_start q) (nat (tq_size q)) = Some ns"
    and xs: "xs = map (\<lambda>p. fst (the (tq_heap q p))) ns"
    using assms(2) by (auto simp: tq_abs_nodes)
  show ?thesis
  proof (cases ns)
    case Nil
    then show ?thesis using ns xs assms by (simp add: tq_nodes_Nil_iff tqPop_def)
  next
    case (Cons p rest)
    obtain q' where "tqPop q = Some (Some (fst (the (tq_heap q p))), q')" "tq_inv q'"
      "tq_nodes (tq_heap q') (tq_start q') (nat (tq_size q')) = Some rest" "\<forall>r \<in> set rest. tq_heap q' r = tq_heap q r"
      using tqPop_nodes[OF assms(1) ns[unfolded Cons]] by blast
    then show ?thesis using xs Cons by (auto simp: tq_abs_nodes)
  qed
qed

text \<open>Every triangle appended leaves the queue: popping a well-formed queue as many times as
  it holds triangles returns them in the order they were appended and empties the queue.\<close>

theorem tqPopN_drains:
  assumes "tq_inv q" "tq_abs q = Some xs"
  shows "\<exists>q'. tqPopN (length xs) q = Some (xs, q') \<and> tq_inv q' \<and> tq_abs q' = Some []"
proof -
  obtain ns where ns: "tq_nodes (tq_heap q) (tq_start q) (nat (tq_size q)) = Some ns"
    and xs: "xs = map (\<lambda>p. fst (the (tq_heap q p))) ns"
    using assms(2) by (auto simp: tq_abs_nodes)
  show ?thesis using tqPopN_nodes[OF assms(1) ns] xs by (auto simp: tq_abs_nodes)
qed

text \<open>C24. Every queue reached from the empty queue by append and pop is well formed.\<close>

theorem tq_reach_inv:
  "tq_reach q \<Longrightarrow> tq_inv q"
proof (induction rule: tq_reach.induct)
  case init
  then show ?case by (simp add: tqInit_def tq_inv_def)
next
  case (append q t q')
  then obtain ns where "tq_nodes (tq_heap q) (tq_start q) (nat (tq_size q)) = Some ns"
    using tq_inv_nodes by blast
  from tqAppend_nodes[OF append.IH this, of t] append.hyps(2) show ?case by auto
next
  case (pop q r q')
  then obtain ns where ns: "tq_nodes (tq_heap q) (tq_start q) (nat (tq_size q)) = Some ns"
    using tq_inv_nodes by blast
  show ?case
  proof (cases ns)
    case Nil
    with pop ns show ?thesis by (auto simp: tq_nodes_Nil_iff tqPop_def)
  next
    case (Cons p rest)
    from tqPop_nodes[OF pop.IH ns[unfolded Cons]] pop.hyps(2) show ?thesis by auto
  qed
qed

text \<open>C33. deleteNext does not move end: deleting the last node through its predecessor leaves end
  pointing at the deleted node, and the next append on the non-empty queue writes through that
  dangling pointer.\<close>

theorem tqDeleteNext_dangling_end:
  assumes "tq_inv q" "tq_nodes (tq_heap q) (tq_start q) (nat (tq_size q)) = Some ns" "2 \<le> length ns"
  shows "\<exists>q'. tqDeleteNext (Some (ns ! (length ns - 2))) q = Some (1, q') \<and> tqAppend t q' = None"
proof -
  let ?a = "ns ! (length ns - 2)" and ?b = "ns ! (length ns - 1)"
  obtain I: "distinct ns" "tq_end q = Some (last ns)" "0 \<le> tq_size q"
    using tq_inv_nodes[OF assms(1)] assms(2,3) by auto
  have ne: "ns \<noteq> []" using assms(3) by auto
  then have b: "last ns = ?b" by (simp add: last_conv_nth)
  have e: "Suc (length ns - 2) = length ns - 1" "Suc (length ns - 2) < length ns" using assms(3) by arith+
  obtain ta where a: "tq_heap q ?a = Some (ta, Some ?b)"
    using tq_nodes_next[OF assms(2) e(2)] unfolding e(1) by blast
  obtain tb where tb: "tq_heap q ?b = Some (tb, None)" using tq_nodes_last[OF assms(2) ne] b by auto
  have ab: "?a \<noteq> ?b" using I(1) assms(3) by (simp add: nth_eq_iff_index_eq)
  have sz: "tq_size q - 1 \<noteq> 0" using tq_nodes_Some_set[OF assms(2)] assms(3) I(3) by auto
  show ?thesis
    using a tb ab sz I(2) b by (simp add: tqDeleteNext_def tqAppend_def Let_def)
qed


subsection \<open>Witnesses\<close>

lemma tq_example_facts:
  "tq_inv \<lparr>tq_heap = [0 \<mapsto> (5::nat, Some 1), 1 \<mapsto> (6, None)], tq_start = Some 0, tq_end = Some 1, tq_size = 2, tq_fresh = 2\<rparr>" "tq_abs \<lparr>tq_heap = [0 \<mapsto> (5::nat, Some 1), 1 \<mapsto> (6, None)], tq_start = Some 0, tq_end = Some 1, tq_size = 2, tq_fresh = 2\<rparr> = Some [5, 6]"
  "tq_nodes (tq_heap \<lparr>tq_heap = [0 \<mapsto> (5::nat, Some 1), 1 \<mapsto> (6, None)], tq_start = Some 0, tq_end = Some 1, tq_size = 2, tq_fresh = 2\<rparr>) (tq_start \<lparr>tq_heap = [0 \<mapsto> (5::nat, Some 1), 1 \<mapsto> (6, None)], tq_start = Some 0, tq_end = Some 1, tq_size = 2, tq_fresh = 2\<rparr>) (nat (tq_size \<lparr>tq_heap = [0 \<mapsto> (5::nat, Some 1), 1 \<mapsto> (6, None)], tq_start = Some 0, tq_end = Some 1, tq_size = 2, tq_fresh = 2\<rparr>)) = Some [0, 1]"
  by (simp_all add: tq_inv_def tq_abs_def numeral_2_eq_2)

lemma tqAppend_fifo_witness:
  "\<exists>q'. tqAppend 7 \<lparr>tq_heap = [0 \<mapsto> (5::nat, Some 1), 1 \<mapsto> (6, None)], tq_start = Some 0, tq_end = Some 1, tq_size = 2, tq_fresh = 2\<rparr> = Some q' \<and> tq_inv q' \<and> tq_abs q' = Some [5, 6, 7]"
  using tqAppend_fifo[OF tq_example_facts(1,2), of 7] by simp

lemma tqPop_fifo_witness:
  "\<exists>q'. tqPop \<lparr>tq_heap = [0 \<mapsto> (5::nat, Some 1), 1 \<mapsto> (6, None)], tq_start = Some 0, tq_end = Some 1, tq_size = 2, tq_fresh = 2\<rparr> = Some (Some 5, q') \<and> tq_inv q' \<and> tq_abs q' = Some [6]"
  using tqPop_fifo[OF tq_example_facts(1,2)] by simp

lemma tqPopN_drains_witness:
  "\<exists>q'. tqPopN 2 \<lparr>tq_heap = [0 \<mapsto> (5::nat, Some 1), 1 \<mapsto> (6, None)], tq_start = Some 0, tq_end = Some 1, tq_size = 2, tq_fresh = 2\<rparr> = Some ([5, 6], q') \<and> tq_inv q' \<and> tq_abs q' = Some []"
proof -
  have l: "length [5::nat, 6] = 2" by simp
  show ?thesis using tqPopN_drains[OF tq_example_facts(1,2)] unfolding l .
qed

lemma tq_reach_inv_witness:
  "tq_reach \<lparr>tq_heap = [0 \<mapsto> (5::nat, None)], tq_start = Some 0, tq_end = Some 0, tq_size = 1, tq_fresh = 1\<rparr> \<and> tq_inv \<lparr>tq_heap = [0 \<mapsto> (5::nat, None)], tq_start = Some 0, tq_end = Some 0, tq_size = 1, tq_fresh = 1\<rparr>"
proof -
  have e: "tqAppend 5 tqInit = Some \<lparr>tq_heap = [0 \<mapsto> (5::nat, None)], tq_start = Some 0, tq_end = Some 0, tq_size = 1, tq_fresh = 1\<rparr>" by (simp add: tqAppend_def tqInit_def)
  have r: "tq_reach \<lparr>tq_heap = [0 \<mapsto> (5::nat, None)], tq_start = Some 0, tq_end = Some 0, tq_size = 1, tq_fresh = 1\<rparr>" by (rule tq_reach.append[OF tq_reach.init e])
  show ?thesis using r tq_reach_inv[OF r] by simp
qed

lemma tqDeleteNext_dangling_end_witness:
  "\<exists>q'. tqDeleteNext (Some 0) \<lparr>tq_heap = [0 \<mapsto> (5::nat, Some 1), 1 \<mapsto> (6, None)], tq_start = Some 0, tq_end = Some 1, tq_size = 2, tq_fresh = 2\<rparr> = Some (1, q') \<and> tqAppend 7 q' = None"
  using tqDeleteNext_dangling_end[OF tq_example_facts(1,3), of 7] by simp
end
