(* ===== verification/Edges.thy ===== *)
theory Edges
  imports TriHash
begin

unbundle bit_operations_syntax

text \<open>
  The planar straight-line graph (PSLG) edges of the triangulator
  (\<open>TMRTriangularize.c\<close>).  \<open>compare_edges\<close> orders pairs of \<open>uint32_t\<close> node
  numbers in Morton (Z-curve) order by an XOR test on the most significant
  differing bit; \<open>setUpPSLGEdges\<close> stores every segment in both directions and
  sorts the array with it, and \<open>edgeInPSLG\<close> looks an edge up by binary search.
  The C library's \<open>qsort\<close> and \<open>bsearch\<close> are modelled from their contracts, as an
  insertion sort and a bisection by the same comparator.  \<open>mkey\<close> is the
  reference Morton key (bits of \<open>x\<close> and \<open>y\<close> interleaved, \<open>x\<close> more
  significant); the lemmas show that the XOR test computes its order, and hence
  that the binary search finds exactly the stored edges.  The second part models
  \<open>removeDegenerateEdges\<close>, which collapses degenerate edges and renumbers the
  nodes: the renumbering loop is proved correct for pairs sorted by their first
  entry, and its comparator \<open>compare_degen_edges\<close> is shown not to produce that
  order.
\<close>

section \<open>Definitions\<close>

subsection \<open>Reference Morton key\<close>

function mkey :: "nat \<Rightarrow> nat \<Rightarrow> nat" where
  "mkey x y = (if x = 0 \<and> y = 0 then 0 else 4 * mkey (x div 2) (y div 2) + 2 * (x mod 2) + y mod 2)"
  by pat_completeness auto
termination
  by (relation "measure (\<lambda>(x, y). x + y)") auto

declare mkey.simps [simp del]

text \<open>\<open>xtest d e\<close> holds when the highest set bit of \<open>d OR e\<close> is a bit of \<open>d\<close>.\<close>

definition xtest :: "nat \<Rightarrow> nat \<Rightarrow> bool" where
  "xtest d e \<longleftrightarrow> ((d OR e) XOR d) < d"

subsection \<open>Comparators\<close>

definition compare_edges :: "u32 \<times> u32 \<Rightarrow> u32 \<times> u32 \<Rightarrow> int" where
  "compare_edges a b = (case a of (ax, ay) \<Rightarrow> case b of (bx, by') \<Rightarrow>
     let xxor = ax XOR bx; yxor = ay XOR by'; sor = xxor OR yxor
     in if (sor XOR xxor) < xxor then sint (ax - bx) else sint (ay - by'))"

definition compare_degen_edges :: "u32 \<times> u32 \<Rightarrow> u32 \<times> u32 \<Rightarrow> int" where
  "compare_degen_edges a b = (case a of (ax, ay) \<Rightarrow> case b of (bx, by') \<Rightarrow>
     if ax = bx then sint (ax - bx) else sint (ay - by'))"

subsection \<open>The C library's sort and search\<close>

fun insort_cmp :: "('a \<Rightarrow> 'a \<Rightarrow> int) \<Rightarrow> 'a \<Rightarrow> 'a list \<Rightarrow> 'a list" where
  "insort_cmp cmp x [] = [x]"
| "insort_cmp cmp x (y # ys) = (if cmp x y \<le> 0 then x # y # ys else y # insort_cmp cmp x ys)"

definition qsort :: "('a \<Rightarrow> 'a \<Rightarrow> int) \<Rightarrow> 'a list \<Rightarrow> 'a list" where
  "qsort cmp xs = foldr (insort_cmp cmp) xs []"

function bsearch :: "('a \<Rightarrow> 'a \<Rightarrow> int) \<Rightarrow> 'a \<Rightarrow> 'a list \<Rightarrow> nat \<Rightarrow> nat \<Rightarrow> nat option" where
  "bsearch cmp k xs l u = (if l < u then
     (let m = (l + u) div 2; c = cmp k (xs ! m) in
      if c < 0 then bsearch cmp k xs l m
      else if 0 < c then bsearch cmp k xs (Suc m) u
      else Some m)
   else None)"
  by pat_completeness auto
termination
  by (relation "measure (\<lambda>(cmp, k, xs, l, u). u - l)") auto

subsection \<open>The PSLG edge array\<close>

definition pslg_node :: "int \<Rightarrow> int \<Rightarrow> u32" where
  "pslg_node fpo s = (if 0 \<le> s then word_of_int (s + fpo) else 0)"

definition pslg_pairs :: "int \<Rightarrow> (int \<times> int) list \<Rightarrow> (u32 \<times> u32) list" where
  "pslg_pairs fpo segs = concat (map (\<lambda>(s, t).
     let u = pslg_node fpo s; v = pslg_node fpo t in [(u, v), (v, u)]) segs)"

definition setUpPSLGEdges :: "int \<Rightarrow> (int \<times> int) list \<Rightarrow> (u32 \<times> u32) list" where
  "setUpPSLGEdges fpo segs = qsort compare_edges (pslg_pairs fpo segs)"

definition edgeInPSLG :: "(u32 \<times> u32) list \<Rightarrow> u32 \<Rightarrow> u32 \<Rightarrow> bool" where
  "edgeInPSLG es u v \<longleftrightarrow> bsearch compare_edges (u, v) es 0 (length es) \<noteq> None"

subsection \<open>Removal of degenerate edges\<close>

text \<open>\<open>removeDegenerateEdges\<close> stores every degenerate edge with the larger node
  number first and sorts the pairs with \<open>compare_degen_edges\<close>.  For each pair it
  deletes, through the edge hash of theory TriHash (\<open>completeMe\<close>, \<open>deleteTriangle\<close>),
  the triangles on both sides of the edge (a triangle pointer that names no list
  node is None), and unlinks them with \<open>deleteTrianglesFromList\<close>.  It then walks the
  node numbers in increasing order: a node that is the first entry of the next
  pair takes the new number of its partner, every other node the next free number,
  and its point (the arrays \<open>X\<close> and \<open>pts\<close>, one list here) moves down to that
  slot; finally every triangle of the list is relabelled.  An uninitialised or
  out-of-range read of \<open>old_to_new\<close> is None.  The message printed for an edge
  with no triangle is output only; the hash table keeps the old numbers, as in
  the code.\<close>

definition degen_pair :: "int \<Rightarrow> int \<times> int \<Rightarrow> u32 \<times> u32" where
  "degen_pair fpo d = (case d of (a, b) \<Rightarrow>
     let u = word_of_int (a + fpo); v = word_of_int (b + fpo) in if u < v then (v, u) else (u, v))"

definition sortDegen :: "int \<Rightarrow> (int \<times> int) list \<Rightarrow> (u32 \<times> u32) list" where
  "sortDegen fpo degen = qsort compare_degen_edges (map (degen_pair fpo) degen)"

type_synonym 'p renum = "nat \<times> nat \<times> (nat \<Rightarrow> nat option) \<times> 'p list"

definition renumberStep :: "(u32 \<times> u32) list \<Rightarrow> 'p renum \<Rightarrow> nat \<Rightarrow> 'p renum option" where
  "renumberStep sd st i = (case st of (j, cnt, o2n, X) \<Rightarrow>
     if j < length sd \<and> unat (fst (sd ! j)) = i then
       (case o2n (unat (snd (sd ! j))) of
          None \<Rightarrow> None
        | Some k \<Rightarrow> Some (Suc j, cnt, o2n(i \<mapsto> k), X))
     else Some (j, Suc cnt, o2n(i \<mapsto> cnt), if cnt \<noteq> i then X[cnt := X ! i] else X))"

definition renumberNodes :: "(u32 \<times> u32) list \<Rightarrow> nat \<Rightarrow> 'p list \<Rightarrow> (nat \<times> (nat \<Rightarrow> nat option) \<times> 'p list) option" where
  "renumberNodes sd num_points X =
     map_option (\<lambda>(j, cnt, o2n, X). (cnt, o2n, X)) (foldM (renumberStep sd) (0, 0, Map.empty, X) [0..<num_points])"

definition degenDeleteEdge :: "hash_fn \<Rightarrow> tri_mesh \<Rightarrow> u32 \<times> u32 \<Rightarrow> tri_mesh option" where
  "degenDeleteEdge hash st e = (case completeMe hash (fst e) (snd e) st of
     None \<Rightarrow> Some st
   | Some nd \<Rightarrow> (case map_of (tm_list st) nd of
       None \<Rightarrow> None
     | Some t \<Rightarrow> Some (snd (deleteTriangle hash t st))))"

definition degenDelete :: "hash_fn \<Rightarrow> tri_mesh \<Rightarrow> u32 \<times> u32 \<Rightarrow> tri_mesh option" where
  "degenDelete hash st e = (case e of (u, v) \<Rightarrow>
     Option.bind (degenDeleteEdge hash st (u, v)) (\<lambda>st1. degenDeleteEdge hash st1 (v, u)))"

definition relabelTri :: "(nat \<Rightarrow> nat option) \<Rightarrow> tri \<Rightarrow> tri option" where
  "relabelTri o2n t = (case (o2n (unat (tri_u t)), o2n (unat (tri_v t)), o2n (unat (tri_w t))) of
     (Some a, Some b, Some c) \<Rightarrow> Some (t\<lparr>tri_u := of_nat a, tri_v := of_nat b, tri_w := of_nat c\<rparr>)
   | _ \<Rightarrow> None)"

definition relabelTris :: "(nat \<Rightarrow> nat option) \<Rightarrow> (nat \<times> tri) list \<Rightarrow> (nat \<times> tri) list option" where
  "relabelTris o2n ts = those (map (\<lambda>(nd, t). map_option (\<lambda>t'. (nd, t')) (relabelTri o2n t)) ts)"

definition removeDegenerateEdges ::
  "hash_fn \<Rightarrow> int \<Rightarrow> (int \<times> int) list \<Rightarrow> nat \<Rightarrow> 'p list \<Rightarrow> tri_mesh \<Rightarrow> (nat \<times> 'p list \<times> tri_mesh) option" where
  "removeDegenerateEdges hash fpo degen num_points X st =
     (if degen = [] then Some (num_points, X, st) else
      let sd = sortDegen fpo degen in
      case foldM (degenDelete hash) st sd of
        None \<Rightarrow> None
      | Some st1 \<Rightarrow>
          let st2 = deleteTrianglesFromList st1 in
          (case renumberNodes sd num_points X of
             None \<Rightarrow> None
           | Some (cnt, o2n, X') \<Rightarrow>
               map_option (\<lambda>ts. (cnt, X', st2\<lparr>tm_list := ts\<rparr>)) (relabelTris o2n (tm_list st2))))"

definition dnodes :: "(u32 \<times> u32) list \<Rightarrow> nat set" where
  "dnodes sd = (\<lambda>p. unat (fst p)) ` set sd"

definition renum_inv :: "(u32 \<times> u32) list \<Rightarrow> 'p list \<Rightarrow> nat \<Rightarrow> 'p renum \<Rightarrow> bool" where
  "renum_inv sd X i st = (case st of (j, cnt, o2n, Y) \<Rightarrow>
     j \<le> length sd \<and> (\<forall>k<j. unat (fst (sd ! k)) < i) \<and> (j < length sd \<longrightarrow> i \<le> unat (fst (sd ! j))) \<and>
     cnt + j = i \<and> dom o2n = {..<i} \<and>
     (\<forall>k<j. o2n (unat (fst (sd ! k))) = o2n (unat (snd (sd ! k)))) \<and>
     (\<forall>k<i. the (o2n k) < cnt) \<and>
     (\<forall>k1 k2. k1 < k2 \<longrightarrow> k2 < i \<longrightarrow> k1 \<notin> dnodes sd \<longrightarrow> k2 \<notin> dnodes sd \<longrightarrow> the (o2n k1) < the (o2n k2)) \<and>
     (\<forall>k<i. k \<notin> dnodes sd \<longrightarrow> Y ! the (o2n k) = X ! k) \<and>
     (\<forall>m\<in>{cnt..<length Y}. Y ! m = X ! m) \<and> length Y = length X)"

definition small_edge :: "u32 \<times> u32 \<Rightarrow> bool" where
  "small_edge e \<longleftrightarrow> unat (fst e) < 2 ^ 31 \<and> unat (snd e) < 2 ^ 31"

definition ekey :: "u32 \<times> u32 \<Rightarrow> nat" where
  "ekey e = mkey (unat (fst e)) (unat (snd e))"

section \<open>Morton order\<close>

lemma mkey_00: "mkey 0 0 = 0"
  by (simp add: mkey.simps)

lemma mkey_rec: "mkey x y = 4 * mkey (x div 2) (y div 2) + 2 * (x mod 2) + y mod 2"
proof (cases "x = 0 \<and> y = 0")
  case True
  then show ?thesis by (simp add: mkey_00)
next
  case False
  then show ?thesis by (subst mkey.simps) (simp add: mkey_00)
qed

lemma mkey_mod_div:
  "mkey x y mod 4 = 2 * (x mod 2) + y mod 2" "mkey x y div 4 = mkey (x div 2) (y div 2)"
proof -
  have lt: "2 * (x mod 2) + y mod 2 < 4" by linarith
  have e: "mkey x y = 2 * (x mod 2) + y mod 2 + 4 * mkey (x div 2) (y div 2)"
    using mkey_rec[of x y] by simp
  show "mkey x y mod 4 = 2 * (x mod 2) + y mod 2" unfolding e using lt by simp
  show "mkey x y div 4 = mkey (x div 2) (y div 2)" unfolding e using lt by simp
qed

lemma mkey_zero_iff: "mkey x y = 0 \<longleftrightarrow> x = 0 \<and> y = 0"
proof (induction x y rule: mkey.induct)
  case (1 x y)
  show ?case
  proof (cases "x = 0 \<and> y = 0")
    case False
    then show ?thesis using "1.IH"[OF False] by (subst mkey.simps) auto
  qed (simp add: mkey_00)
qed

lemma half_sum_less: "\<not> (x = 0 \<and> y = 0) \<Longrightarrow> x div 2 + y div 2 < x + y" for x y :: nat
proof -
  assume a: "\<not> (x = 0 \<and> y = 0)"
  have "x div 2 \<le> x" "y div 2 \<le> y" by simp_all
  moreover have "x div 2 < x \<or> y div 2 < y" using a by auto
  ultimately show ?thesis by linarith
qed

lemma bit_pair_eq: "2 * a + b = 2 * c + d \<Longrightarrow> b < 2 \<Longrightarrow> d < 2 \<Longrightarrow> a = c \<and> b = d" for a b c d :: nat
  by arith

lemma half_eq: "a div 2 = b div 2 \<Longrightarrow> a mod 2 = b mod 2 \<Longrightarrow> a = b" for a b :: nat
  by (metis div_mult_mod_eq)

lemma mkey_inj: "mkey x1 y1 = mkey x2 y2 \<longleftrightarrow> x1 = x2 \<and> y1 = y2"
proof (induction "x1 + y1" arbitrary: x1 y1 x2 y2 rule: less_induct)
  case less
  show ?case
  proof
    assume e: "mkey x1 y1 = mkey x2 y2"
    show "x1 = x2 \<and> y1 = y2"
    proof (cases "x1 = 0 \<and> y1 = 0")
      case True
      then show ?thesis using e by (simp add: mkey_00 mkey_zero_iff[of x2 y2, symmetric])
    next
      case False
      have "2 * (x1 mod 2) + y1 mod 2 = 2 * (x2 mod 2) + y2 mod 2"
        using mkey_mod_div(1)[of x1 y1] mkey_mod_div(1)[of x2 y2] e by simp
      from bit_pair_eq[OF this] have lo: "x1 mod 2 = x2 mod 2" "y1 mod 2 = y2 mod 2" by simp_all
      have "mkey (x1 div 2) (y1 div 2) = mkey (x2 div 2) (y2 div 2)"
        using mkey_mod_div(2)[of x1 y1] mkey_mod_div(2)[of x2 y2] e by simp
      then have hi: "x1 div 2 = x2 div 2 \<and> y1 div 2 = y2 div 2"
        using less[OF half_sum_less[OF False]] by blast
      show ?thesis using lo hi half_eq by blast
    qed
  qed simp
qed

lemma or_xor_div2: "((d OR e) XOR d) div 2 = ((d div 2) OR (e div 2)) XOR (d div 2)" for d e :: nat
  by (rule bit_eqI) (simp add: bit_Suc[symmetric] bit_xor_iff bit_or_iff)

lemma or_xor_disjoint: "((d OR e) XOR d) AND d = 0" for d e :: nat
  by (rule bit_eqI) (auto simp: bit_and_iff bit_or_iff bit_xor_iff)

lemma xtest_half:
  assumes "d div 2 \<noteq> 0 \<or> e div 2 \<noteq> 0"
  shows "xtest d e \<longleftrightarrow> xtest (d div 2) (e div 2)"
proof -
  let ?D = "(d OR e) XOR d" and ?D' = "((d div 2) OR (e div 2)) XOR (d div 2)"
  have D: "?D div 2 = ?D'" by (rule or_xor_div2)
  have ne: "?D' \<noteq> d div 2"
  proof
    assume eq: "?D' = d div 2"
    then have "d div 2 AND d div 2 = 0" using or_xor_disjoint[of "d div 2" "e div 2"] by simp
    then have "d div 2 = 0" by simp
    with eq have "e div 2 = 0" by simp
    with \<open>d div 2 = 0\<close> assms show False by simp
  qed
  have "?D < d \<longleftrightarrow> ?D' < d div 2"
  proof
    assume "?D < d" then show "?D' < d div 2" using D ne by (metis div_le_mono le_neq_implies_less less_imp_le_nat)
  next
    assume "?D' < d div 2" then show "?D < d" using D by linarith
  qed
  then show ?thesis by (simp add: xtest_def)
qed

lemma xor_div2: "(a XOR b) div 2 = (a div 2) XOR (b div 2)" for a b :: nat
  by (rule bit_eqI) (simp add: bit_Suc[symmetric] bit_xor_iff)

lemma xor_eq_0_nat: "a XOR b = 0 \<longleftrightarrow> a = b" for a b :: nat
proof
  assume z: "a XOR b = 0"
  show "a = b"
  proof (rule bit_eqI)
    fix n
    have "\<not> bit (a XOR b) n" using z by simp
    then show "bit a n = bit b n" by (simp add: bit_xor_iff)
  qed
qed simp

lemma xtest_zero: "xtest d 0 \<longleftrightarrow> 0 < d"
  by (simp add: xtest_def)

lemma xtest_bits: "xtest 1 e \<longleftrightarrow> True" "xtest 0 e \<longleftrightarrow> False" if "e < 2" for e :: nat
proof -
  have "e = 0 \<or> e = 1" using that by auto
  then show "xtest 1 e \<longleftrightarrow> True" by (auto simp: xtest_def)
  show "xtest 0 e \<longleftrightarrow> False" by (simp add: xtest_def)
qed

lemma xor_low: "a div 2 = b div 2 \<Longrightarrow> a XOR b = of_bool (odd a \<noteq> odd b)" for a b :: nat
  by (simp add: xor_nat_rec[of a b])

lemma two_less: "A \<noteq> B \<Longrightarrow> r < 2 \<Longrightarrow> s < 2 \<Longrightarrow> 2 * A + r < 2 * B + s \<longleftrightarrow> A < B" for A B r s :: nat
  by arith

lemma less_by_half: "a div 2 \<noteq> b div 2 \<Longrightarrow> a < b \<longleftrightarrow> a div 2 < b div 2" for a b :: nat
  using two_less[of "a div 2" "b div 2" "a mod 2" "b mod 2"] by simp

lemma same_half_less: "a div 2 = b div 2 \<Longrightarrow> a < b \<longleftrightarrow> a mod 2 < b mod 2" for a b :: nat
proof -
  assume h: "a div 2 = b div 2"
  have "a = 2 * (b div 2) + a mod 2" using h div_mult_mod_eq[of a 2] by (simp add: mult.commute)
  moreover have "b = 2 * (b div 2) + b mod 2" using div_mult_mod_eq[of b 2] by (simp add: mult.commute)
  ultimately show ?thesis by arith
qed

lemma four_less: "A \<noteq> B \<Longrightarrow> r1 < 4 \<Longrightarrow> r2 < 4 \<Longrightarrow> 4 * A + r1 < 4 * B + r2 \<longleftrightarrow> A < B" for A B r1 r2 :: nat
  by arith

lemma quad_sum_less:
  "\<not> (x1 div 2 = x2 div 2 \<and> y1 div 2 = y2 div 2) \<Longrightarrow>
   x1 div 2 + y1 div 2 + (x2 div 2 + y2 div 2) < x1 + y1 + (x2 + y2)" for x1 y1 x2 y2 :: nat
proof -
  assume a: "\<not> (x1 div 2 = x2 div 2 \<and> y1 div 2 = y2 div 2)"
  then have "\<not> (x1 = 0 \<and> y1 = 0) \<or> \<not> (x2 = 0 \<and> y2 = 0)" by auto
  then show ?thesis using half_sum_less[of x1 y1] half_sum_less[of x2 y2] by fastforce
qed

lemma mkey_less:
  "mkey x1 y1 < mkey x2 y2 \<longleftrightarrow> (if xtest (x1 XOR x2) (y1 XOR y2) then x1 < x2 else y1 < y2)"
proof (induction "x1 + y1 + (x2 + y2)" arbitrary: x1 y1 x2 y2 rule: less_induct)
  case less
  let ?r1 = "2 * (x1 mod 2) + y1 mod 2" and ?r2 = "2 * (x2 mod 2) + y2 mod 2"
  have k1: "mkey x1 y1 = 4 * mkey (x1 div 2) (y1 div 2) + ?r1" by (subst mkey_rec) simp
  have k2: "mkey x2 y2 = 4 * mkey (x2 div 2) (y2 div 2) + ?r2" by (subst mkey_rec) simp
  have r: "?r1 < 4" "?r2 < 4" by linarith+
  show ?case
  proof (cases "x1 div 2 = x2 div 2 \<and> y1 div 2 = y2 div 2")
    case False
    have ne: "mkey (x1 div 2) (y1 div 2) \<noteq> mkey (x2 div 2) (y2 div 2)"
      using False mkey_inj by blast
    have IH: "mkey (x1 div 2) (y1 div 2) < mkey (x2 div 2) (y2 div 2) \<longleftrightarrow>
        (if xtest (x1 div 2 XOR x2 div 2) (y1 div 2 XOR y2 div 2) then x1 div 2 < x2 div 2 else y1 div 2 < y2 div 2)"
      by (rule less[OF quad_sum_less[OF False]])
    have half: "(x1 XOR x2) div 2 \<noteq> 0 \<or> (y1 XOR y2) div 2 \<noteq> 0"
      using False by (simp only: xor_div2 xor_eq_0_nat) blast
    have xt: "xtest (x1 XOR x2) (y1 XOR y2) \<longleftrightarrow> xtest (x1 div 2 XOR x2 div 2) (y1 div 2 XOR y2 div 2)"
      using xtest_half[OF half] by (simp only: xor_div2)
    have four: "mkey x1 y1 < mkey x2 y2 \<longleftrightarrow> mkey (x1 div 2) (y1 div 2) < mkey (x2 div 2) (y2 div 2)"
      unfolding k1 k2 by (rule four_less[OF ne r])
    show ?thesis
    proof (cases "xtest (x1 div 2 XOR x2 div 2) (y1 div 2 XOR y2 div 2)")
      case True
      then have "x1 div 2 XOR x2 div 2 \<noteq> 0" by (auto simp: xtest_def)
      then have hx: "x1 div 2 \<noteq> x2 div 2" by auto
      have "mkey x1 y1 < mkey x2 y2 \<longleftrightarrow> x1 div 2 < x2 div 2" using four IH True by simp
      also have "\<dots> \<longleftrightarrow> x1 < x2" using less_by_half[OF hx] by simp
      finally show ?thesis using xt True by simp
    next
      case F: False
      have hy: "y1 div 2 \<noteq> y2 div 2"
      proof
        assume hy0: "y1 div 2 = y2 div 2"
        then have hx: "x1 div 2 \<noteq> x2 div 2" using False by blast
        have "y1 div 2 XOR y2 div 2 = 0" using hy0 by simp
        then show False using F hx by (simp add: xtest_zero xor_eq_0_nat)
      qed
      have "mkey x1 y1 < mkey x2 y2 \<longleftrightarrow> y1 div 2 < y2 div 2" using four IH F by simp
      also have "\<dots> \<longleftrightarrow> y1 < y2" using less_by_half[OF hy] by simp
      finally show ?thesis using xt F by simp
    qed
  next
    case True
    then have d: "x1 XOR x2 = of_bool (odd x1 \<noteq> odd x2)" and e: "y1 XOR y2 = of_bool (odd y1 \<noteq> odd y2)"
      by (simp_all add: xor_low)
    have eq: "mkey (x1 div 2) (y1 div 2) = mkey (x2 div 2) (y2 div 2)" using True by simp
    have kk: "mkey x1 y1 < mkey x2 y2 \<longleftrightarrow> ?r1 < ?r2" using k1 k2 eq by simp
    have e2: "(y1 XOR y2) < 2" using e by simp
    show ?thesis
    proof (cases "x1 mod 2 = x2 mod 2")
      case False
      then have "xtest (x1 XOR x2) (y1 XOR y2)" using d xtest_bits(1)[OF e2] by (auto simp: odd_iff_mod_2_eq_one)
      moreover have "?r1 < ?r2 \<longleftrightarrow> x1 mod 2 < x2 mod 2" using two_less[OF False] by simp
      ultimately show ?thesis using kk same_half_less[of x1 x2] True by simp
    next
      case F: True
      then have "\<not> xtest (x1 XOR x2) (y1 XOR y2)" using d xtest_bits(2)[OF e2] by (auto simp: odd_iff_mod_2_eq_one)
      moreover have "?r1 < ?r2 \<longleftrightarrow> y1 mod 2 < y2 mod 2" using F by simp
      ultimately show ?thesis using kk same_half_less[of y1 y2] True by simp
    qed
  qed
qed

section \<open>The comparator computes the Morton order\<close>

lemma sint_small: "unat a < 2 ^ 31 \<Longrightarrow> sint a = int (unat a)" for a :: u32
proof -
  assume "unat a < 2 ^ 31"
  then have "int (unat a) < int (2 ^ 31)" by (simp only: of_nat_less_iff)
  then have "uint a < 2 ^ 31" by simp
  then have "signed_take_bit 31 (uint a) = uint a"
    using uint_ge_0[of a] by (intro signed_take_bit_int_eq_self) linarith+
  then show ?thesis by (simp add: sint_uint)
qed

lemma sint_diff_small:
  "unat a < 2 ^ 31 \<Longrightarrow> unat b < 2 ^ 31 \<Longrightarrow> sint (a - b) = int (unat a) - int (unat b)" for a b :: u32
proof -
  assume a: "unat a < 2 ^ 31" and b: "unat b < 2 ^ 31"
  then have "int (unat a) < int (2 ^ 31)" "int (unat b) < int (2 ^ 31)" by (simp_all only: of_nat_less_iff)
  then have "uint a < 2 ^ 31" "uint b < 2 ^ 31" by simp_all
  then have "signed_take_bit 31 (uint a - uint b) = uint a - uint b"
    using uint_ge_0[of a] uint_ge_0[of b] by (intro signed_take_bit_int_eq_self) linarith+
  then show ?thesis by (simp add: sint_word_diff sint_small[OF a] sint_small[OF b])
qed

lemma xor_test_word:
  "((((ax XOR bx) OR (ay XOR by')) XOR (ax XOR bx)) < ax XOR bx) \<longleftrightarrow> xtest (unat ax XOR unat bx) (unat ay XOR unat by')"
  for ax ay bx by' :: u32
  by (simp add: word_less_nat_alt unsigned_xor_eq unsigned_or_eq xtest_def)

lemma sgn_diff_eq: "(a < b \<longleftrightarrow> c < d) \<Longrightarrow> (b < a \<longleftrightarrow> d < c) \<Longrightarrow> sgn (a - b) = sgn (c - d)" for a b c d :: int
  by (cases a b rule: linorder_cases) (auto simp: sgn_if)

lemma sgn_eq_cases: "sgn c = sgn (int a - int b) \<Longrightarrow> (c < 0 \<longleftrightarrow> a < b) \<and> (0 < c \<longleftrightarrow> b < a)" for c :: int and a b :: nat
  by (auto simp: sgn_if split: if_splits)

lemma mkey_less_sym:
  "mkey x2 y2 < mkey x1 y1 \<longleftrightarrow> (if xtest (x1 XOR x2) (y1 XOR y2) then x2 < x1 else y2 < y1)"
  using mkey_less[of x2 y2 x1 y1] by (simp add: xor.commute)

lemma compare_edges_sign:
  assumes "small_edge a" and "small_edge b"
  shows "sgn (compare_edges a b) = sgn (int (ekey a) - int (ekey b))"
proof -
  obtain ax ay bx by' where ab: "a = (ax, ay)" "b = (bx, by')" by (cases a, cases b) auto
  have s: "unat ax < 2 ^ 31" "unat ay < 2 ^ 31" "unat bx < 2 ^ 31" "unat by' < 2 ^ 31"
    using assms by (simp_all add: small_edge_def ab)
  let ?t = "xtest (unat ax XOR unat bx) (unat ay XOR unat by')"
  have m1: "mkey (unat ax) (unat ay) < mkey (unat bx) (unat by') \<longleftrightarrow>
      (if ?t then unat ax < unat bx else unat ay < unat by')" by (rule mkey_less)
  have m2: "mkey (unat bx) (unat by') < mkey (unat ax) (unat ay) \<longleftrightarrow>
      (if ?t then unat bx < unat ax else unat by' < unat ay)" by (rule mkey_less_sym)
  let ?k1 = "mkey (unat ax) (unat ay)" and ?k2 = "mkey (unat bx) (unat by')"
  have e: "ekey a = ?k1" "ekey b = ?k2" by (simp_all add: ekey_def ab)
  show ?thesis
  proof (cases ?t)
    case True
    then have c: "compare_edges a b = int (unat ax) - int (unat bx)"
      using sint_diff_small[OF s(1,3)] by (simp add: compare_edges_def ab Let_def xor_test_word)
    have "unat ax < unat bx \<longleftrightarrow> ?k1 < ?k2" "unat bx < unat ax \<longleftrightarrow> ?k2 < ?k1"
      using True m1 m2 by simp_all
    then have "sgn (int (unat ax) - int (unat bx)) = sgn (int ?k1 - int ?k2)"
      by (intro sgn_diff_eq) (simp_all only: of_nat_less_iff)
    then show ?thesis by (simp only: c e)
  next
    case False
    then have c: "compare_edges a b = int (unat ay) - int (unat by')"
      using sint_diff_small[OF s(2,4)] by (simp add: compare_edges_def ab Let_def xor_test_word)
    have "unat ay < unat by' \<longleftrightarrow> ?k1 < ?k2" "unat by' < unat ay \<longleftrightarrow> ?k2 < ?k1"
      using False m1 m2 by simp_all
    then have "sgn (int (unat ay) - int (unat by')) = sgn (int ?k1 - int ?k2)"
      by (intro sgn_diff_eq) (simp_all only: of_nat_less_iff)
    then show ?thesis by (simp only: c e)
  qed
qed

text \<open>C25. On node numbers below 2^31 the comparator of the PSLG edge array orders
  pairs in Morton order: the sign of \<open>compare_edges\<close> is the sign of the difference
  of the two interleaved Morton keys, so the XOR test on the most significant
  differing bit is an exact replacement for building the keys.\<close>

theorem compare_edges_morton:
  "unat ax < 2 ^ 31 \<Longrightarrow> unat ay < 2 ^ 31 \<Longrightarrow> unat bx < 2 ^ 31 \<Longrightarrow> unat by' < 2 ^ 31 \<Longrightarrow>
   sgn (compare_edges (ax, ay) (bx, by')) = sgn (int (mkey (unat ax) (unat ay)) - int (mkey (unat bx) (unat by')))"
  using compare_edges_sign[of "(ax, ay)" "(bx, by')"] by (simp add: small_edge_def ekey_def)

theorem compare_edges_morton_witness:
  "sgn (compare_edges (6, 5) (4, 6)) = sgn (int (mkey 6 5) - int (mkey 4 6))"
  using compare_edges_morton[of 6 5 4 6] by simp

lemma compare_edges_less:
  "small_edge a \<Longrightarrow> small_edge b \<Longrightarrow>
   (compare_edges a b < 0 \<longleftrightarrow> ekey a < ekey b) \<and> (0 < compare_edges a b \<longleftrightarrow> ekey b < ekey a)"
  by (rule sgn_eq_cases[OF compare_edges_sign])

lemma compare_edges_le: "small_edge a \<Longrightarrow> small_edge b \<Longrightarrow> compare_edges a b \<le> 0 \<longleftrightarrow> ekey a \<le> ekey b"
  using compare_edges_less[of a b] by (auto simp: not_less[symmetric])

lemma ekey_inj: "ekey a = ekey b \<Longrightarrow> a = b"
  by (cases a, cases b) (simp add: ekey_def mkey_inj word_unat_eq_iff)

section \<open>Sorting and searching by the comparator\<close>

lemma insort_cmp_key:
  "small_edge x \<Longrightarrow> \<forall>y\<in>set ys. small_edge y \<Longrightarrow> insort_cmp compare_edges x ys = insort_key ekey x ys"
  by (induction ys) (auto simp: compare_edges_le)

lemma qsort_sort_key: "\<forall>x\<in>set xs. small_edge x \<Longrightarrow> qsort compare_edges xs = sort_key ekey xs"
proof (induction xs)
  case (Cons x xs)
  then have "qsort compare_edges (x # xs) = insort_cmp compare_edges x (sort_key ekey xs)"
    by (simp add: qsort_def)
  also have "\<dots> = sort_key ekey (x # xs)" using Cons.prems by (simp add: insort_cmp_key)
  finally show ?case .
qed (simp add: qsort_def)

lemma bsearch_found:
  fixes f :: "'a \<Rightarrow> nat"
  shows "sorted (map f xs) \<Longrightarrow> \<forall>y\<in>set xs. (cmp k y < 0 \<longleftrightarrow> f k < f y) \<and> (0 < cmp k y \<longleftrightarrow> f y < f k) \<Longrightarrow>
    u \<le> length xs \<Longrightarrow> bsearch cmp k xs l u \<noteq> None \<longleftrightarrow> (\<exists>i. l \<le> i \<and> i < u \<and> f (xs ! i) = f k)"
proof (induction cmp k xs l u rule: bsearch.induct)
  case (1 cmp k xs l u)
  show ?case
  proof (cases "l < u")
    case lu: True
    define m where "m = (l + u) div 2"
    have m: "l \<le> m" "m < u" "m < length xs" using lu "1.prems"(3) by (simp_all add: m_def)
    have mono: "i \<le> j \<Longrightarrow> j < length xs \<Longrightarrow> f (xs ! i) \<le> f (xs ! j)" for i j
      using sorted_nth_mono[OF "1.prems"(1), of i j] by simp
    have c: "(cmp k (xs ! m) < 0 \<longleftrightarrow> f k < f (xs ! m)) \<and> (0 < cmp k (xs ! m) \<longleftrightarrow> f (xs ! m) < f k)"
      using "1.prems"(2) m(3) by simp
    consider (lt) "cmp k (xs ! m) < 0" | (gt) "0 < cmp k (xs ! m)" | (eq) "cmp k (xs ! m) = 0" by linarith
    then show ?thesis
    proof cases
      case lt
      then have r: "bsearch cmp k xs l u = bsearch cmp k xs l m" using lu by (simp add: m_def Let_def)
      have nf: "f (xs ! i) \<noteq> f k" if "m \<le> i" "i < u" for i
        using mono[of m i] that lt c "1.prems"(3) by auto
      have ih: "bsearch cmp k xs l m \<noteq> None \<longleftrightarrow> (\<exists>i. l \<le> i \<and> i < m \<and> f (xs ! i) = f k)"
        using "1.IH"(1)[OF lu m_def refl lt "1.prems"(1,2)] m by simp
      have "(\<exists>i. l \<le> i \<and> i < u \<and> f (xs ! i) = f k) \<longleftrightarrow> (\<exists>i. l \<le> i \<and> i < m \<and> f (xs ! i) = f k)"
      proof
        assume "\<exists>i. l \<le> i \<and> i < u \<and> f (xs ! i) = f k"
        then obtain i where i: "l \<le> i" "i < u" "f (xs ! i) = f k" by blast
        then have "\<not> m \<le> i" using nf by blast
        then show "\<exists>i. l \<le> i \<and> i < m \<and> f (xs ! i) = f k" using i by (auto simp: not_le)
      next
        assume "\<exists>i. l \<le> i \<and> i < m \<and> f (xs ! i) = f k"
        then show "\<exists>i. l \<le> i \<and> i < u \<and> f (xs ! i) = f k" using m(2) by (auto intro: less_trans)
      qed
      then show ?thesis using r ih by simp
    next
      case gt
      then have r: "bsearch cmp k xs l u = bsearch cmp k xs (Suc m) u" using lu by (simp add: m_def Let_def)
      have nf: "f (xs ! i) \<noteq> f k" if "i \<le> m" for i
        using mono[of i m] that gt c m by auto
      have ih: "bsearch cmp k xs (Suc m) u \<noteq> None \<longleftrightarrow> (\<exists>i. Suc m \<le> i \<and> i < u \<and> f (xs ! i) = f k)"
        using "1.IH"(2)[OF lu m_def refl _ gt "1.prems"] gt by simp
      have "(\<exists>i. l \<le> i \<and> i < u \<and> f (xs ! i) = f k) \<longleftrightarrow> (\<exists>i. Suc m \<le> i \<and> i < u \<and> f (xs ! i) = f k)"
      proof
        assume "\<exists>i. l \<le> i \<and> i < u \<and> f (xs ! i) = f k"
        then obtain i where i: "l \<le> i" "i < u" "f (xs ! i) = f k" by blast
        then have "\<not> i \<le> m" using nf by blast
        then show "\<exists>i. Suc m \<le> i \<and> i < u \<and> f (xs ! i) = f k" using i by (auto simp: not_le Suc_le_eq)
      next
        assume "\<exists>i. Suc m \<le> i \<and> i < u \<and> f (xs ! i) = f k"
        then obtain i where i: "Suc m \<le> i" "i < u" "f (xs ! i) = f k" by blast
        then have "l \<le> i" using m(1) by simp
        then show "\<exists>i. l \<le> i \<and> i < u \<and> f (xs ! i) = f k" using i by blast
      qed
      then show ?thesis using r ih by simp
    next
      case eq
      then have "bsearch cmp k xs l u = Some m" using lu by (simp add: m_def Let_def)
      moreover have "f (xs ! m) = f k" using eq c by auto
      ultimately show ?thesis using m by auto
    qed
  qed simp
qed

section \<open>The PSLG edge array\<close>

lemma pslg_node_small: "0 \<le> fpo \<Longrightarrow> s + fpo < 2 ^ 31 \<Longrightarrow> unat (pslg_node fpo s) < 2 ^ 31"
proof (cases "0 \<le> s")
  case True
  assume f: "0 \<le> fpo" and b: "s + fpo < 2 ^ 31"
  have "take_bit 32 (s + fpo) = s + fpo" using f b True by (intro take_bit_int_eq_self) simp_all
  then have "uint (pslg_node fpo s) = s + fpo" using True
    by (simp del: of_int_add add: pslg_node_def uint_word_of_int_eq)
  then have "int (unat (pslg_node fpo s)) < int (2 ^ 31)" using b by simp
  then show ?thesis by (simp only: of_nat_less_iff)
qed (simp add: pslg_node_def)

lemma pslg_pairs_small:
  assumes "0 \<le> fpo" and "\<forall>(s, t)\<in>set segs. s + fpo < 2 ^ 31 \<and> t + fpo < 2 ^ 31"
  shows "\<forall>e\<in>set (pslg_pairs fpo segs). small_edge e"
proof
  fix e assume "e \<in> set (pslg_pairs fpo segs)"
  then obtain s t where st: "(s, t) \<in> set segs"
    and e: "e = (pslg_node fpo s, pslg_node fpo t) \<or> e = (pslg_node fpo t, pslg_node fpo s)"
    by (auto simp: pslg_pairs_def Let_def)
  have "s + fpo < 2 ^ 31" "t + fpo < 2 ^ 31" using assms(2) st by auto
  then have "unat (pslg_node fpo s) < 2 ^ 31" "unat (pslg_node fpo t) < 2 ^ 31"
    using pslg_node_small[OF assms(1)] by blast+
  then show "small_edge e" using e by (auto simp: small_edge_def)
qed

lemma set_pslg_pairs:
  "(u, v) \<in> set (pslg_pairs fpo segs) \<longleftrightarrow>
   (\<exists>(s, t)\<in>set segs. (u, v) = (pslg_node fpo s, pslg_node fpo t) \<or> (v, u) = (pslg_node fpo s, pslg_node fpo t))"
  by (auto simp: pslg_pairs_def Let_def)

lemma setUpPSLGEdges_sort_key:
  "0 \<le> fpo \<Longrightarrow> \<forall>(s, t)\<in>set segs. s + fpo < 2 ^ 31 \<and> t + fpo < 2 ^ 31 \<Longrightarrow>
   setUpPSLGEdges fpo segs = sort_key ekey (pslg_pairs fpo segs)"
  unfolding setUpPSLGEdges_def by (rule qsort_sort_key[OF pslg_pairs_small])

lemma mset_insort_cmp: "mset (insort_cmp cmp x ys) = add_mset x (mset ys)"
  by (induction ys) auto

lemma mset_qsort: "mset (qsort cmp xs) = mset xs"
  by (induction xs) (simp_all add: qsort_def mset_insort_cmp)

lemma length_pslg_pairs: "length (pslg_pairs fpo segs) = 2 * length segs"
  by (induction segs) (auto simp: pslg_pairs_def Let_def)

lemma mset_pslg_pairs:
  "mset (pslg_pairs fpo segs) =
     sum_list (map (\<lambda>(s, t). {#(pslg_node fpo s, pslg_node fpo t), (pslg_node fpo t, pslg_node fpo s)#}) segs)"
  by (induction segs) (auto simp: pslg_pairs_def Let_def)

lemma edgeInPSLG_sorted:
  assumes "sorted (map ekey es)" and "\<forall>e\<in>set es. small_edge e" and "small_edge (u, v)"
  shows "edgeInPSLG es u v \<longleftrightarrow> (u, v) \<in> set es"
proof -
  have cmp: "\<forall>y\<in>set es. (compare_edges (u, v) y < 0 \<longleftrightarrow> ekey (u, v) < ekey y) \<and>
      (0 < compare_edges (u, v) y \<longleftrightarrow> ekey y < ekey (u, v))"
    using assms(2) compare_edges_less[OF assms(3)] by blast
  have "edgeInPSLG es u v \<longleftrightarrow> (\<exists>i. 0 \<le> i \<and> i < length es \<and> ekey (es ! i) = ekey (u, v))"
    unfolding edgeInPSLG_def
    by (rule bsearch_found[where f = ekey and xs = es and cmp = compare_edges and k = "(u, v)" and l = 0 and u = "length es", OF assms(1) cmp order.refl])
  also have "\<dots> \<longleftrightarrow> (u, v) \<in> set es" by (auto simp: in_set_conv_nth dest: ekey_inj)
  finally show ?thesis .
qed

text \<open>C26. For node numbers below 2^31 (the comparator subtracts them as C ints), the
  edge lookup of the triangulator finds an edge exactly when it joins the two ends of
  one of the input segments, in either direction.\<close>

theorem edgeInPSLG_setUpPSLGEdges:
  assumes "0 \<le> fpo" and "\<forall>(s, t)\<in>set segs. s + fpo < 2 ^ 31 \<and> t + fpo < 2 ^ 31"
    and "unat u < 2 ^ 31" and "unat v < 2 ^ 31"
  shows "edgeInPSLG (setUpPSLGEdges fpo segs) u v \<longleftrightarrow>
    (\<exists>(s, t)\<in>set segs. (u, v) = (pslg_node fpo s, pslg_node fpo t) \<or> (v, u) = (pslg_node fpo s, pslg_node fpo t))"
proof -
  have es: "setUpPSLGEdges fpo segs = sort_key ekey (pslg_pairs fpo segs)"
    by (rule setUpPSLGEdges_sort_key[OF assms(1,2)])
  have "edgeInPSLG (setUpPSLGEdges fpo segs) u v \<longleftrightarrow> (u, v) \<in> set (setUpPSLGEdges fpo segs)"
    using pslg_pairs_small[OF assms(1,2)] assms(3,4)
    by (intro edgeInPSLG_sorted) (simp_all add: es small_edge_def)
  then show ?thesis by (simp add: es set_pslg_pairs)
qed

theorem edgeInPSLG_setUpPSLGEdges_witness:
  "edgeInPSLG (setUpPSLGEdges 4 [(0, 1), (1, 2)]) 6 5 \<and> \<not> edgeInPSLG (setUpPSLGEdges 4 [(0, 1), (1, 2)]) 6 4"
  using edgeInPSLG_setUpPSLGEdges[of 4 "[(0, 1), (1, 2)]" 6 5] edgeInPSLG_setUpPSLGEdges[of 4 "[(0, 1), (1, 2)]" 6 4]
  by (simp add: pslg_node_def)

text \<open>C27. Well-formedness of the PSLG edge array that edgeInPSLG searches: for
  node numbers below 2^31, setUpPSLGEdges returns 2*nsegs pairs, which as a multiset
  are exactly the pairs (u, v) and (v, u) of every input segment (u, v), in an order in which every pair compares less than or
  equal to every later one under compare_edges, as bsearch requires.\<close>

theorem setUpPSLGEdges_wf:
  assumes "0 \<le> fpo" and "\<forall>(s, t)\<in>set segs. s + fpo < 2 ^ 31 \<and> t + fpo < 2 ^ 31"
  shows "length (setUpPSLGEdges fpo segs) = 2 * length segs \<and>
    mset (setUpPSLGEdges fpo segs) =
      sum_list (map (\<lambda>(s, t). {#(pslg_node fpo s, pslg_node fpo t), (pslg_node fpo t, pslg_node fpo s)#}) segs) \<and>
    sorted_wrt (\<lambda>a b. compare_edges a b \<le> 0) (setUpPSLGEdges fpo segs)"
proof -
  have m0: "mset (setUpPSLGEdges fpo segs) = mset (pslg_pairs fpo segs)"
    by (simp add: setUpPSLGEdges_def mset_qsort)
  then have m: "mset (setUpPSLGEdges fpo segs) =
      sum_list (map (\<lambda>(s, t). {#(pslg_node fpo s, pslg_node fpo t), (pslg_node fpo t, pslg_node fpo s)#}) segs)"
    by (simp add: mset_pslg_pairs)
  from m0 have l: "length (setUpPSLGEdges fpo segs) = 2 * length segs"
    by (metis length_pslg_pairs size_mset)
  have es: "setUpPSLGEdges fpo segs = sort_key ekey (pslg_pairs fpo segs)"
    by (rule setUpPSLGEdges_sort_key[OF assms])
  have sm: "\<forall>e\<in>set (setUpPSLGEdges fpo segs). small_edge e"
    using pslg_pairs_small[OF assms] by (simp add: es)
  have "sorted_wrt (\<lambda>a b. ekey a \<le> ekey b) (setUpPSLGEdges fpo segs)"
    using sorted_sort_key[of ekey "pslg_pairs fpo segs"] by (simp add: es sorted_map)
  then have "sorted_wrt (\<lambda>a b. compare_edges a b \<le> 0) (setUpPSLGEdges fpo segs)"
  proof (rule sorted_wrt_mono_rel[rotated])
    fix a b assume "a \<in> set (setUpPSLGEdges fpo segs)" "b \<in> set (setUpPSLGEdges fpo segs)" "ekey a \<le> ekey b"
    then show "compare_edges a b \<le> 0" using sm compare_edges_le by simp
  qed
  then show ?thesis using l m by blast
qed

theorem setUpPSLGEdges_wf_witness:
  "length (setUpPSLGEdges 4 [(0, 1), (1, 2)]) = 2 * length [(0::int, 1::int), (1, 2)] \<and>
    mset (setUpPSLGEdges 4 [(0, 1), (1, 2)]) =
      sum_list (map (\<lambda>(s, t). {#(pslg_node 4 s, pslg_node 4 t), (pslg_node 4 t, pslg_node 4 s)#}) [(0, 1), (1, 2)]) \<and>
    sorted_wrt (\<lambda>a b. compare_edges a b \<le> 0) (setUpPSLGEdges 4 [(0, 1), (1, 2)])"
  using setUpPSLGEdges_wf[of 4 "[(0, 1), (1, 2)]"] by simp

section \<open>Renumbering after the removal of degenerate edges\<close>

lemma renum_invD:
  assumes "renum_inv sd X i (j, cnt, o2n, Y)"
  shows
    "j \<le> length sd"
    "\<forall>k<j. unat (fst (sd ! k)) < i"
    "j < length sd \<longrightarrow> i \<le> unat (fst (sd ! j))"
    "cnt + j = i"
    "dom o2n = {..<i}"
    "\<forall>k<j. o2n (unat (fst (sd ! k))) = o2n (unat (snd (sd ! k)))"
    "\<forall>k<i. the (o2n k) < cnt"
    "\<forall>k1 k2. k1 < k2 \<longrightarrow> k2 < i \<longrightarrow> k1 \<notin> dnodes sd \<longrightarrow> k2 \<notin> dnodes sd \<longrightarrow> the (o2n k1) < the (o2n k2)"
    "\<forall>k<i. k \<notin> dnodes sd \<longrightarrow> Y ! the (o2n k) = X ! k"
    "\<forall>m\<in>{cnt..<length Y}. Y ! m = X ! m"
    "length Y = length X"
  using assms by (simp_all add: renum_inv_def)

lemma renum_invI:
  assumes
    "j \<le> length sd"
    "\<forall>k<j. unat (fst (sd ! k)) < i"
    "j < length sd \<longrightarrow> i \<le> unat (fst (sd ! j))"
    "cnt + j = i"
    "dom o2n = {..<i}"
    "\<forall>k<j. o2n (unat (fst (sd ! k))) = o2n (unat (snd (sd ! k)))"
    "\<forall>k<i. the (o2n k) < cnt"
    "\<forall>k1 k2. k1 < k2 \<longrightarrow> k2 < i \<longrightarrow> k1 \<notin> dnodes sd \<longrightarrow> k2 \<notin> dnodes sd \<longrightarrow> the (o2n k1) < the (o2n k2)"
    "\<forall>k<i. k \<notin> dnodes sd \<longrightarrow> Y ! the (o2n k) = X ! k"
    "\<forall>m\<in>{cnt..<length Y}. Y ! m = X ! m"
    "length Y = length X"
  shows "renum_inv sd X i (j, cnt, o2n, Y)"
  using assms by (simp add: renum_inv_def)

lemma sorted_fst_less:
  "sorted_wrt (<) (map f sd) \<Longrightarrow> k1 < k2 \<Longrightarrow> k2 < length sd \<Longrightarrow> f (sd ! k1) < f (sd ! k2)"
  by (simp add: sorted_wrt_iff_nth_less)

lemma renum_inv_init: "renum_inv sd X 0 (0, 0, Map.empty, X)"
  by (auto simp: renum_inv_def)

lemma renum_step_merge:
  assumes sd: "sorted_wrt (<) (map (\<lambda>p. unat (fst p)) sd)" "\<forall>p\<in>set sd. unat (snd p) < unat (fst p)"
    and inv: "renum_inv sd X i (j, cnt, o2n, Y)"
    and hit: "j < length sd" "unat (fst (sd ! j)) = i"
  shows "\<exists>st'. renumberStep sd (j, cnt, o2n, Y) i = Some st' \<and> renum_inv sd X (Suc i) st'"
proof -
  note I = renum_invD[OF inv]
  let ?s = "unat (snd (sd ! j))"
  have si: "?s < i" using sd(2) hit nth_mem[OF hit(1)] by fastforce
  then have "?s \<in> dom o2n" using I(5) by simp
  then obtain v where v: "o2n ?s = Some v" by auto
  have vc: "v < cnt" using I(7) si v by fastforce
  have idn: "i \<in> dnodes sd" using hit nth_mem[OF hit(1)] by (force simp: dnodes_def)
  have sk: "unat (snd (sd ! k)) < i" if "k < j" for k
    using I(2) that sd(2) nth_mem[of k sd] hit(1) by fastforce
  have next_gt: "Suc i \<le> unat (fst (sd ! Suc j))" if "Suc j < length sd"
    using sorted_fst_less[OF sd(1), of j "Suc j"] that hit by simp
  let ?o = "o2n(i \<mapsto> v)"
  have old: "?o k = o2n k" if "k < i" for k using that by simp
  have inv': "renum_inv sd X (Suc i) (Suc j, cnt, ?o, Y)"
  proof (rule renum_invI)
    show "Suc j \<le> length sd" using hit by simp
    show "\<forall>k<Suc j. unat (fst (sd ! k)) < Suc i" using I(2) hit by (auto simp: less_Suc_eq)
    show "Suc j < length sd \<longrightarrow> Suc i \<le> unat (fst (sd ! Suc j))" using next_gt by blast
    show "cnt + Suc j = Suc i" using I(4) by simp
    show "dom ?o = {..<Suc i}" using I(5) by auto
    show "\<forall>k<Suc j. ?o (unat (fst (sd ! k))) = ?o (unat (snd (sd ! k)))"
    proof (intro allI impI)
      fix k assume "k < Suc j"
      then consider (lt) "k < j" | (eq) "k = j" by linarith
      then show "?o (unat (fst (sd ! k))) = ?o (unat (snd (sd ! k)))"
      proof cases
        case lt
        then have "unat (fst (sd ! k)) < i" "unat (snd (sd ! k)) < i" using I(2) sk by auto
        then show ?thesis using I(6) lt by simp
      qed (use si v hit in simp)
    qed
    show "\<forall>k<Suc i. the (?o k) < cnt" using I(7) vc by (auto simp: less_Suc_eq)
    show "\<forall>k1 k2. k1 < k2 \<longrightarrow> k2 < Suc i \<longrightarrow> k1 \<notin> dnodes sd \<longrightarrow> k2 \<notin> dnodes sd \<longrightarrow> the (?o k1) < the (?o k2)"
      using I(8) idn by (auto simp: less_Suc_eq)
    show "\<forall>k<Suc i. k \<notin> dnodes sd \<longrightarrow> Y ! the (?o k) = X ! k" using I(9) idn by (auto simp: less_Suc_eq)
    show "\<forall>m\<in>{cnt..<length Y}. Y ! m = X ! m" using I(10) .
    show "length Y = length X" using I(11) .
  qed
  have "renumberStep sd (j, cnt, o2n, Y) i = Some (Suc j, cnt, ?o, Y)"
    using hit v by (simp add: renumberStep_def)
  then show ?thesis using inv' by blast
qed

lemma renum_step_fresh:
  assumes sd: "sorted_wrt (<) (map (\<lambda>p. unat (fst p)) sd)" "\<forall>p\<in>set sd. unat (snd p) < unat (fst p)"
    and inv: "renum_inv sd X i (j, cnt, o2n, Y)"
    and miss: "\<not> (j < length sd \<and> unat (fst (sd ! j)) = i)" and iX: "i < length X"
  shows "\<exists>st'. renumberStep sd (j, cnt, o2n, Y) i = Some st' \<and> renum_inv sd X (Suc i) st'"
proof -
  note I = renum_invD[OF inv]
  have idn: "i \<notin> dnodes sd"
  proof
    assume "i \<in> dnodes sd"
    then obtain k where k: "k < length sd" "unat (fst (sd ! k)) = i" by (auto simp: dnodes_def in_set_conv_nth)
    consider (lt) "k < j" | (eq) "k = j" | (gt) "j < k" by linarith
    then show False
    proof cases
      case lt then show False using I(2) k by fastforce
    next
      case eq then show False using miss k by simp
    next
      case gt
      then have "unat (fst (sd ! j)) < i" using sorted_fst_less[OF sd(1) gt k(1)] k(2) by simp
      then show False using I(3) gt k(1) by simp
    qed
  qed
  have sk: "unat (snd (sd ! k)) < i" if "k < j" for k
    using I(1,2) that sd(2) nth_mem[of k sd] by fastforce
  have ci: "cnt \<le> i" using I(4) by simp
  have iY: "i < length Y" using iX I(11) by simp
  have Yi: "Y ! i = X ! i" using I(10) ci iY by simp
  define Y' where "Y' = (if cnt \<noteq> i then Y[cnt := Y ! i] else Y)"
  have Y'c: "Y' ! cnt = X ! i" using Yi ci iY by (simp add: Y'_def)
  have Y'o: "Y' ! m = Y ! m" if "m \<noteq> cnt" for m using that by (simp add: Y'_def)
  have lY': "length Y' = length X" using I(11) by (simp add: Y'_def)
  let ?o = "o2n(i \<mapsto> cnt)"
  have inv': "renum_inv sd X (Suc i) (j, Suc cnt, ?o, Y')"
  proof (rule renum_invI)
    show "j \<le> length sd" using I(1) .
    show "\<forall>k<j. unat (fst (sd ! k)) < Suc i" using I(2) by auto
    show "j < length sd \<longrightarrow> Suc i \<le> unat (fst (sd ! j))" using I(3) miss by auto
    show "Suc cnt + j = Suc i" using I(4) by simp
    show "dom ?o = {..<Suc i}" using I(5) by auto
    show "\<forall>k<j. ?o (unat (fst (sd ! k))) = ?o (unat (snd (sd ! k)))"
    proof (intro allI impI)
      fix k assume k: "k < j"
      then have "unat (fst (sd ! k)) < i" "unat (snd (sd ! k)) < i" using I(2) sk by auto
      then show "?o (unat (fst (sd ! k))) = ?o (unat (snd (sd ! k)))" using I(6) k by simp
    qed
    show "\<forall>k<Suc i. the (?o k) < Suc cnt" using I(7) by (auto simp: less_Suc_eq)
    show "\<forall>k1 k2. k1 < k2 \<longrightarrow> k2 < Suc i \<longrightarrow> k1 \<notin> dnodes sd \<longrightarrow> k2 \<notin> dnodes sd \<longrightarrow> the (?o k1) < the (?o k2)"
      using I(7,8) by (auto simp: less_Suc_eq)
    show "\<forall>k<Suc i. k \<notin> dnodes sd \<longrightarrow> Y' ! the (?o k) = X ! k"
    proof (intro allI impI)
      fix k assume k: "k < Suc i" "k \<notin> dnodes sd"
      show "Y' ! the (?o k) = X ! k"
      proof (cases "k = i")
        case False
        then have "k < i" using k by simp
        then show ?thesis using I(7,9) Y'o k(2) by fastforce
      qed (simp add: Y'c)
    qed
    show "\<forall>m\<in>{Suc cnt..<length Y'}. Y' ! m = X ! m" using I(10,11) lY' Y'o by auto
    show "length Y' = length X" using lY' .
  qed
  have "renumberStep sd (j, cnt, o2n, Y) i = Some (j, Suc cnt, ?o, Y')"
    unfolding renumberStep_def prod.case if_not_P[OF miss] Y'_def by simp
  then show ?thesis using inv' by blast
qed

lemma renum_fold:
  assumes sd: "sorted_wrt (<) (map (\<lambda>p. unat (fst p)) sd)" "\<forall>p\<in>set sd. unat (snd p) < unat (fst p)"
    and n: "i \<le> length X"
  shows "\<exists>st. foldM (renumberStep sd) (0, 0, Map.empty, X) [0..<i] = Some st \<and> renum_inv sd X i st"
  using n
proof (induction i)
  case 0
  then show ?case by (simp add: renum_inv_init)
next
  case (Suc i)
  then obtain st where st: "foldM (renumberStep sd) (0, 0, Map.empty, X) [0..<i] = Some st" "renum_inv sd X i st"
    by auto
  obtain j cnt o2n Y where stc: "st = (j, cnt, o2n, Y)" by (cases st) auto
  have "\<exists>st'. renumberStep sd st i = Some st' \<and> renum_inv sd X (Suc i) st'"
  proof (cases "j < length sd \<and> unat (fst (sd ! j)) = i")
    case True
    then show ?thesis using renum_step_merge[OF sd st(2)[unfolded stc]] stc by simp
  next
    case False
    then show ?thesis using renum_step_fresh[OF sd st(2)[unfolded stc] False] Suc.prems stc by simp
  qed
  then show ?case using st(1) by (auto simp: foldM_append)
qed

lemma degenDelete_initMesh: "degenDelete hash initMesh e = Some initMesh"
  by (cases e) (simp add: degenDelete_def degenDeleteEdge_def completeMe_initMesh)

lemma deleteTrianglesFromList_initMesh: "deleteTrianglesFromList initMesh = initMesh"
  by (simp add: deleteTrianglesFromList_def initMesh_def)

lemma renumberNodes_code_example: "\<exists>o2n. renumberNodes [(5, 1), (4, 2)] 6 [0..<6::nat] = Some (5, o2n, [0..<6])"
  by (simp add: renumberNodes_def renumberStep_def upt_rec)

text \<open>C28. The renumbering loop of removeDegenerateEdges is correct on the order it
  relies on: when the first entries of the degenerate pairs strictly increase, every
  first entry is greater than its partner and below num_points, and the point arrays
  hold num_points entries, the loop returns num_points minus the number of pairs as
  the new point count, gives every node a number below it, the same number to the
  two ends of each degenerate edge and increasing numbers to the other nodes, and
  moves each kept point to its new slot.\<close>

theorem renumberNodes_sorted:
  assumes "sorted_wrt (<) (map (\<lambda>p. unat (fst p)) sd)"
    and "\<forall>p\<in>set sd. unat (snd p) < unat (fst p) \<and> unat (fst p) < n" and "n \<le> length X"
  shows "\<exists>o2n X'. renumberNodes sd n X = Some (n - length sd, o2n, X') \<and> dom o2n = {..<n} \<and>
    (\<forall>p\<in>set sd. o2n (unat (fst p)) = o2n (unat (snd p))) \<and> (\<forall>k<n. the (o2n k) < n - length sd) \<and>
    (\<forall>k1 k2. k1 < k2 \<longrightarrow> k2 < n \<longrightarrow> k1 \<notin> dnodes sd \<longrightarrow> k2 \<notin> dnodes sd \<longrightarrow> the (o2n k1) < the (o2n k2)) \<and>
    (\<forall>k<n. k \<notin> dnodes sd \<longrightarrow> X' ! the (o2n k) = X ! k) \<and> length X' = length X"
proof -
  have sd2: "\<forall>p\<in>set sd. unat (snd p) < unat (fst p)" using assms(2) by blast
  obtain st where st: "foldM (renumberStep sd) (0, 0, Map.empty, X) [0..<n] = Some st" "renum_inv sd X n st"
    using renum_fold[OF assms(1) sd2 assms(3)] by blast
  obtain j cnt o2n Y where stc: "st = (j, cnt, o2n, Y)" by (cases st) auto
  note I = renum_invD[OF st(2)[unfolded stc]]
  have j: "j = length sd"
  proof (rule ccontr)
    assume "j \<noteq> length sd"
    then have "j < length sd" using I(1) by simp
    then show False using I(3) assms(2) nth_mem[of j sd] by fastforce
  qed
  have pairs: "\<forall>p\<in>set sd. o2n (unat (fst p)) = o2n (unat (snd p))"
  proof
    fix p assume "p \<in> set sd"
    then obtain k where "k < length sd" "p = sd ! k" by (auto simp: in_set_conv_nth)
    then show "o2n (unat (fst p)) = o2n (unat (snd p))" using I(6) j by simp
  qed
  have "renumberNodes sd n X = Some (n - length sd, o2n, Y)"
    using st(1) stc I(4) j by (simp add: renumberNodes_def)
  then show ?thesis using I(5,7,8,9,11) I(4) j pairs by auto
qed

theorem renumberNodes_sorted_witness:
  "\<exists>o2n X'. renumberNodes [(4, 2), (5, 1)] 6 [0..<6::nat] = Some (4, o2n, X') \<and> dom o2n = {..<6} \<and>
    (\<forall>p\<in>set [(4::u32, 2::u32), (5, 1)]. o2n (unat (fst p)) = o2n (unat (snd p))) \<and> (\<forall>k<6. the (o2n k) < 4) \<and>
    (\<forall>k1 k2. k1 < k2 \<longrightarrow> k2 < 6 \<longrightarrow> k1 \<notin> dnodes [(4, 2), (5, 1)] \<longrightarrow> k2 \<notin> dnodes [(4, 2), (5, 1)] \<longrightarrow> the (o2n k1) < the (o2n k2)) \<and>
    (\<forall>k<6. k \<notin> dnodes [(4, 2), (5, 1)] \<longrightarrow> X' ! the (o2n k) = [0..<6] ! k) \<and> length X' = 6"
  using renumberNodes_sorted[of "[(4, 2), (5, 1)]" 6 "[0..<6::nat]"] by simp

text \<open>C29. compare_degen_edges returns 0 when the first entries agree and otherwise
  compares the second entries, so the degenerate pairs are sorted by their second
  entry, not by the first as the renumbering loop needs: for the degenerate edges
  (1, 5) and (2, 4) the sorted pairs are (5, 1), (4, 2), the loop meets node 4 before
  the pair that names it, and the edge (2, 4) survives: five points are kept instead
  of four and a triangle still uses node 4.  With the pairs in the order of their
  first entries the loop merges both edges.\<close>

theorem removeDegenerateEdges_keeps_degenerate:
  "sortDegen 0 [(1, 5), (2, 4)] = [(5, 1), (4, 2)] \<and>
   removeDegenerateEdges hash 0 [(1, 5), (2, 4)] 6 [0..<6::nat] initMesh = Some (5, [0..<6], initMesh) \<and>
   map_option fst (renumberNodes [(4, 2), (5, 1)] 6 [0..<6::nat]) = Some 4"
proof -
  have s: "sortDegen 0 [(1, 5), (2, 4)] = [(5, 1), (4, 2)]" by code_simp
  obtain o2n where r: "renumberNodes [(5, 1), (4, 2)] 6 [0..<6::nat] = Some (5, o2n, [0..<6])"
    using renumberNodes_code_example by blast
  have "removeDegenerateEdges hash 0 [(1, 5), (2, 4)] 6 [0..<6::nat] initMesh = Some (5, [0..<6], initMesh)"
    by (simp add: removeDegenerateEdges_def s r degenDelete_initMesh deleteTrianglesFromList_initMesh relabelTris_def)
  moreover have "map_option fst (renumberNodes [(4, 2), (5, 1)] 6 [0..<6::nat]) = Some 4" by code_simp
  ultimately show ?thesis using s by blast
qed

end
