(* ===== verification/Geometry.thy ===== *)
theory Geometry
  imports Prelude
begin

text \<open>
  The finite-difference derivatives of the geometry classes
  (\<open>src/unnamed/part_000\<close>, the default \<open>TMRCurve::evalDeriv\<close> and
  \<open>TMRSurface::evalDeriv\<close> declared in \<open>src/unnamed/part_001\<close>).  The virtual
  \<open>evalPoint\<close> of a derived class is a parameter that returns its fail code and
  the point it writes; \<open>getRange\<close> is the parameter range, and the static
  \<open>deriv_step_size\<close> is the step \<open>h\<close> (1e-6 unless a program changes it).  An output
  argument either keeps the caller's value (\<open>Kept\<close>), receives a value computed
  from an uninitialised point (\<open>Undefined\<close>) or receives a value (\<open>Written\<close>).
  The lemmas show that both routines are exact on affine curves and surfaces when
  the range leaves room for a step, and how their failure reports differ.
\<close>

datatype 'a out_val = Kept | Undefined | Written 'a

definition deriv_step_size :: real where
  "deriv_step_size = 1 / 1000000"

definition fd_diff :: "pt3 \<Rightarrow> pt3 \<Rightarrow> real \<Rightarrow> pt3" where
  "fd_diff a b h = (case a of (ax, ay, az) \<Rightarrow> case b of (bx, by', bz) \<Rightarrow>
     ((ax - bx) / h, (ay - by') / h, (az - bz) / h))"

definition curve_evalDeriv :: "(real \<Rightarrow> int \<times> pt3) \<Rightarrow> real \<times> real \<Rightarrow> real \<Rightarrow> real \<Rightarrow> int \<times> pt3 out_val" where
  "curve_evalDeriv evalPt rng h t = (case rng of (tmin, tmax) \<Rightarrow>
     if t \<ge> tmin \<and> t \<le> tmax then
       (case evalPt t of (f, p) \<Rightarrow>
          if f \<noteq> 0 then (f, Kept)
          else if t + h \<le> tmax then
            (case evalPt (t + h) of (f2, p2) \<Rightarrow> if f2 \<noteq> 0 then (f2, Kept) else (0, Written (fd_diff p2 p h)))
          else if t \<ge> tmin + h then
            (case evalPt (t - h) of (f2, p2) \<Rightarrow> if f2 \<noteq> 0 then (f2, Kept) else (0, Written (fd_diff p p2 h)))
          else (0, Kept))
     else (1, Kept))"

text \<open>One direction of the surface derivative: \<open>g\<close> evaluates the surface along the
  parameter, \<open>fail\<close> is the fail flag so far and \<open>p\<close> the point at the parameter.
  \<open>fail = fail || evalPoint(..)\<close> does not call \<open>evalPoint\<close> once \<open>fail\<close> is set, and
  the difference is then taken with an uninitialised point.\<close>

definition surf_dir ::
  "(real \<Rightarrow> int \<times> pt3) \<Rightarrow> real \<times> real \<Rightarrow> real \<Rightarrow> real \<Rightarrow> int \<Rightarrow> pt3 \<Rightarrow> int \<times> pt3 out_val" where
  "surf_dir g rng h s fail p = (case rng of (lo, hi) \<Rightarrow>
     if s + h \<le> hi then
       (if fail \<noteq> 0 then (1, Undefined)
        else case g (s + h) of (f2, p2) \<Rightarrow> if f2 \<noteq> 0 then (1, Undefined) else (0, Written (fd_diff p2 p h)))
     else if s \<ge> lo + h then
       (if fail \<noteq> 0 then (1, Undefined)
        else case g (s - h) of (f2, p2) \<Rightarrow> if f2 \<noteq> 0 then (1, Undefined) else (0, Written (fd_diff p p2 h)))
     else (1, Kept))"

definition surface_evalDeriv ::
  "(real \<Rightarrow> real \<Rightarrow> int \<times> pt3) \<Rightarrow> real \<times> real \<times> real \<times> real \<Rightarrow> real \<Rightarrow> real \<Rightarrow> real \<Rightarrow>
   int \<times> pt3 out_val \<times> pt3 out_val" where
  "surface_evalDeriv evalPt rng h u v = (case rng of (umin, vmin, umax, vmax) \<Rightarrow>
     if u \<ge> umin \<and> u \<le> umax \<and> v \<ge> vmin \<and> v \<le> vmax then
       (case evalPt u v of (f0, p) \<Rightarrow>
        case surf_dir (\<lambda>s. evalPt s v) (umin, umax) h u f0 p of (f1, Xu) \<Rightarrow>
        case surf_dir (\<lambda>s. evalPt u s) (vmin, vmax) h v f1 p of (f2, Xv) \<Rightarrow> (f2, Xu, Xv))
     else (0, Kept, Kept))"

definition curve_invEvalPoint :: "pt3 \<Rightarrow> int \<times> real" where
  "curve_invEvalPoint X = (1, 0)"

definition pointDist :: "pt3 \<Rightarrow> pt3 \<Rightarrow> real" where
  "pointDist a b = (case a of (ax, ay, az) \<Rightarrow> case b of (bx, by', bz) \<Rightarrow>
     sqrt ((ax - bx) * (ax - bx) + (ay - by') * (ay - by') + (az - bz) * (az - bz)))"

text \<open>\<open>integrateEdge\<close> appends to the linked list of \<open>IntegralPt\<close> entries; the model
  returns the entries it appends, as (t, dist) pairs, given the dist \<open>d0\<close> of the
  current tail.  The fail code of \<open>evalPoint\<close> is ignored by the code; the model
  takes the point it writes.  The recursion stops at depth 21 at the latest.\<close>

function integrateEdge ::
  "(real \<Rightarrow> pt3) \<Rightarrow> real \<Rightarrow> pt3 \<Rightarrow> real \<Rightarrow> real \<Rightarrow> nat \<Rightarrow> real \<Rightarrow> (real \<times> real) list" where
  "integrateEdge ev t1 p1 t2 tol ncalls d0 =
     (let tmid = 1 / 2 * (t1 + t2); pmid = ev tmid; p2 = ev t2;
          int1 = (tmid - t1) * pointDist p1 pmid;
          int2 = (t2 - tmid) * pointDist pmid p2;
          int3 = (tmid - t1) * pointDist p1 p2;
          err = \<bar>int3 - int1 - int2\<bar>
      in if (5 < ncalls \<and> err < tol) \<or> 20 < ncalls then [(tmid, d0 + int1), (t2, d0 + int1 + int2)]
         else (let l1 = integrateEdge ev t1 p1 tmid tol (Suc ncalls) d0
               in l1 @ integrateEdge ev tmid pmid t2 tol (Suc ncalls) (snd (last l1))))"
  by pat_completeness auto
termination
  by (relation "measure (\<lambda>(ev, t1, p1, t2, tol, ncalls, d0). 21 - ncalls)") auto

declare integrateEdge.simps [simp del]

definition curve_integrate :: "(real \<Rightarrow> pt3) \<Rightarrow> real \<Rightarrow> real \<Rightarrow> real \<Rightarrow> real \<times> real list \<times> real list" where
  "curve_integrate ev t1 t2 tol =
     (let pts = (t1, 0) # integrateEdge ev t1 (ev t1) t2 tol 0 0
      in (snd (last pts), map fst pts, map snd pts))"

definition affine3 :: "pt3 \<Rightarrow> pt3 \<Rightarrow> real \<Rightarrow> pt3" where
  "affine3 a b t = (case a of (ax, ay, az) \<Rightarrow> case b of (bx, by', bz) \<Rightarrow> (ax + t * bx, ay + t * by', az + t * bz))"

section \<open>Finite differences of affine maps\<close>

lemma fd_diff_affine_fwd: "h \<noteq> 0 \<Longrightarrow> fd_diff (affine3 a b (t + h)) (affine3 a b t) h = b"
  by (cases a, cases b) (simp add: fd_diff_def affine3_def algebra_simps)

lemma fd_diff_affine_bwd: "h \<noteq> 0 \<Longrightarrow> fd_diff (affine3 a b t) (affine3 a b (t - h)) h = b"
  by (cases a, cases b) (simp add: fd_diff_def affine3_def algebra_simps)

lemma fd_diff_affine2_u:
  "h \<noteq> 0 \<Longrightarrow> fd_diff (affine3 (affine3 a bu (u + h)) bv v) (affine3 (affine3 a bu u) bv v) h = bu"
  "h \<noteq> 0 \<Longrightarrow> fd_diff (affine3 (affine3 a bu u) bv v) (affine3 (affine3 a bu (u - h)) bv v) h = bu"
  by (cases a, cases bu, cases bv, simp add: fd_diff_def affine3_def algebra_simps)+

lemma fd_diff_affine2_v:
  "h \<noteq> 0 \<Longrightarrow> fd_diff (affine3 (affine3 a bu u) bv (v + h)) (affine3 (affine3 a bu u) bv v) h = bv"
  "h \<noteq> 0 \<Longrightarrow> fd_diff (affine3 (affine3 a bu u) bv v) (affine3 (affine3 a bu u) bv (v - h)) h = bv"
  by (cases a, cases bu, cases bv, simp add: fd_diff_def affine3_def algebra_simps)+

section \<open>The curve derivative\<close>

text \<open>C31. The finite-difference derivative of TMRCurve::evalDeriv is exact on straight
  curves: when the parameter range holds two steps, every parameter in the range gets
  success and the direction vector b, by the forward difference where t + h fits and by
  the backward difference near the upper end.\<close>

theorem curve_evalDeriv_affine:
  assumes "0 < h" and "tmin + 2 * h \<le> tmax" and "tmin \<le> t" and "t \<le> tmax"
  shows "curve_evalDeriv (\<lambda>s. (0, affine3 a b s)) (tmin, tmax) h t = (0, Written b)"
proof (cases "t + h \<le> tmax")
  case True
  then show ?thesis using assms by (simp add: curve_evalDeriv_def fd_diff_affine_fwd)
next
  case False
  then have "tmin + h \<le> t" using assms(2) by linarith
  then show ?thesis using False assms by (simp add: curve_evalDeriv_def fd_diff_affine_bwd)
qed

lemma curve_evalDeriv_no_room:
  "tmin \<le> t \<Longrightarrow> t \<le> tmax \<Longrightarrow> tmax < t + h \<Longrightarrow> t < tmin + h \<Longrightarrow> fst (evalPt t) = 0 \<Longrightarrow>
   curve_evalDeriv evalPt (tmin, tmax) h t = (0, Kept)"
  by (cases "evalPt t") (simp add: curve_evalDeriv_def)

section \<open>The surface derivative\<close>

lemma surf_dir_affine:
  assumes "0 < h" and "lo + 2 * h \<le> hi" and "lo \<le> s" and "s \<le> hi"
    and fwd: "h \<noteq> 0 \<Longrightarrow> fd_diff (q (s + h)) (q s) h = b" and bwd: "h \<noteq> 0 \<Longrightarrow> fd_diff (q s) (q (s - h)) h = b"
  shows "surf_dir (\<lambda>r. (0, q r)) (lo, hi) h s 0 (q s) = (0, Written b)"
proof (cases "s + h \<le> hi")
  case True
  then show ?thesis using assms by (simp add: surf_dir_def)
next
  case False
  then have "lo + h \<le> s" using assms(2) by linarith
  then show ?thesis using False assms by (simp add: surf_dir_def)
qed

text \<open>C32. The finite-difference derivatives of TMRSurface::evalDeriv are exact on
  affine surfaces a + u bu + v bv: when each parameter range holds two steps, every
  parameter pair in the range gets success, Xu = bu and Xv = bv.\<close>

theorem surface_evalDeriv_affine:
  assumes "0 < h" and "umin + 2 * h \<le> umax" and "vmin + 2 * h \<le> vmax"
    and "umin \<le> u" "u \<le> umax" "vmin \<le> v" "v \<le> vmax"
  shows "surface_evalDeriv (\<lambda>u v. (0, affine3 (affine3 a bu u) bv v)) (umin, vmin, umax, vmax) h u v =
    (0, Written bu, Written bv)"
proof -
  have "surf_dir (\<lambda>r. (0, affine3 (affine3 a bu r) bv v)) (umin, umax) h u 0 (affine3 (affine3 a bu u) bv v) =
      (0, Written bu)"
    using assms(1,2,4,5) by (intro surf_dir_affine) (simp_all add: fd_diff_affine2_u)
  moreover have "surf_dir (\<lambda>r. (0, affine3 (affine3 a bu u) bv r)) (vmin, vmax) h v 0 (affine3 (affine3 a bu u) bv v) =
      (0, Written bv)"
    using assms(1,3,6,7) by (intro surf_dir_affine) (simp_all add: fd_diff_affine2_v)
  ultimately show ?thesis using assms(4-7) by (simp add: surface_evalDeriv_def)
qed

theorem curve_evalDeriv_affine_witness:
  "curve_evalDeriv (\<lambda>s. (0, affine3 (1, 2, 3) (4, 5, 6) s)) (0, 1) (1 / 10) (19 / 20) = (0, Written (4, 5, 6))"
  using curve_evalDeriv_affine[where h = "1 / 10" and tmin = 0 and tmax = 1 and t = "19 / 20"
      and a = "(1, 2, 3)" and b = "(4, 5, 6)"]
  by simp

theorem surface_evalDeriv_affine_witness:
  "surface_evalDeriv (\<lambda>u v. (0, affine3 (affine3 (1, 2, 3) (4, 5, 6) u) (7, 8, 9) v)) (0, 0, 1, 1) (1 / 10) (1 / 2) 1 =
    (0, Written (4, 5, 6), Written (7, 8, 9))"
  using surface_evalDeriv_affine[where h = "1 / 10" and umin = 0 and umax = 1 and vmin = 0 and vmax = 1
      and u = "1 / 2" and v = 1 and a = "(1, 2, 3)" and bu = "(4, 5, 6)" and bv = "(7, 8, 9)"]
  by simp

lemma evalDeriv_out_of_range:
  "\<not> (tmin \<le> t \<and> t \<le> tmax) \<Longrightarrow> curve_evalDeriv evalPt (tmin, tmax) h t = (1, Kept)"
  "\<not> (umin \<le> u \<and> u \<le> umax \<and> vmin \<le> v \<and> v \<le> vmax) \<Longrightarrow>
   surface_evalDeriv evalS (umin, vmin, umax, vmax) h u v = (0, Kept, Kept)"
  by (auto simp: curve_evalDeriv_def surface_evalDeriv_def)

section \<open>Adaptive integration along a curve\<close>

definition pnorm :: "pt3 \<Rightarrow> real" where
  "pnorm b = pointDist b (0, 0, 0)"

lemma pointDist_affine: "pointDist (affine3 a b s) (affine3 a b t) = \<bar>s - t\<bar> * pnorm b"
proof -
  obtain bx by' bz where b: "b = (bx, by', bz)" by (cases b) auto
  obtain ax ay az where a: "a = (ax, ay, az)" by (cases a) auto
  have "(s - t) * (s - t) * (bx * bx + by' * by' + bz * bz) =
      (ax + s * bx - (ax + t * bx)) * (ax + s * bx - (ax + t * bx)) +
      (ay + s * by' - (ay + t * by')) * (ay + s * by' - (ay + t * by')) +
      (az + s * bz - (az + t * bz)) * (az + s * bz - (az + t * bz))"
    by (simp add: algebra_simps)
  then have "pointDist (affine3 a b s) (affine3 a b t) = sqrt ((s - t) * (s - t) * (bx * bx + by' * by' + bz * bz))"
    by (simp add: pointDist_def affine3_def a b)
  also have "\<dots> = \<bar>s - t\<bar> * pnorm b"
    by (simp add: pnorm_def pointDist_def b real_sqrt_mult)
  finally show ?thesis .
qed

lemma integrateEdge_not_Nil: "integrateEdge ev t1 p1 t2 tol ncalls d0 \<noteq> []"
proof (induction "21 - ncalls" arbitrary: ncalls t1 p1 t2 d0 rule: less_induct)
  case less
  show ?case
  proof (cases "20 < ncalls")
    case True
    then show ?thesis by (subst integrateEdge.simps) (simp add: Let_def)
  next
    case False
    then have "integrateEdge ev t1 p1 (1 / 2 * (t1 + t2)) tol (Suc ncalls) d0 \<noteq> []"
      using less by simp
    then show ?thesis by (subst integrateEdge.simps) (simp add: Let_def)
  qed
qed

lemma integrateEdge_line_error:
  assumes "t1 \<le> t2"
  shows "\<bar>(1 / 2 * (t1 + t2) - t1) * pointDist (affine3 a b t1) (affine3 a b t2)
     - (1 / 2 * (t1 + t2) - t1) * pointDist (affine3 a b t1) (affine3 a b (1 / 2 * (t1 + t2)))
     - (t2 - 1 / 2 * (t1 + t2)) * pointDist (affine3 a b (1 / 2 * (t1 + t2))) (affine3 a b t2)\<bar> = 0"
proof -
  let ?w = "(t2 - t1) / 2" and ?P = "pnorm b"
  have a1: "\<bar>t1 - t2\<bar> = 2 * ?w" "\<bar>t1 - 1 / 2 * (t1 + t2)\<bar> = ?w" "\<bar>1 / 2 * (t1 + t2) - t2\<bar> = ?w"
    using assms by (simp_all add: abs_of_nonpos)
  have d: "pointDist (affine3 a b t1) (affine3 a b t2) = 2 * ?w * ?P"
    "pointDist (affine3 a b t1) (affine3 a b (1 / 2 * (t1 + t2))) = ?w * ?P"
    "pointDist (affine3 a b (1 / 2 * (t1 + t2))) (affine3 a b t2) = ?w * ?P"
    by (simp_all only: pointDist_affine a1)
  have mw: "1 / 2 * (t1 + t2) - t1 = ?w" "t2 - 1 / 2 * (t1 + t2) = ?w" by (simp_all add: field_simps)
  have z: "\<bar>w * (2 * w * P) - w * (w * P) - w * (w * P)\<bar> = 0" for w P :: real
    by (simp add: algebra_simps)
  show ?thesis unfolding d mw by (rule z)
qed

lemma integrateEdge_line:
  assumes "0 < tol" and "t1 \<le> t2" and "n \<le> 6"
  shows "snd (last (integrateEdge (affine3 a b) t1 (affine3 a b t1) t2 tol n d0)) =
    d0 + (t2 - t1)\<^sup>2 * pnorm b / 2 ^ (7 - n)"
  using assms(2,3)
proof (induction "6 - n" arbitrary: n t1 t2 d0)
  case 0
  then have n: "n = 6" by simp
  show ?case
    using integrateEdge_line_error[OF "0.prems"(1), of a b] assms(1) n "0.prems"(1)
    by (subst integrateEdge.simps) (simp add: Let_def pointDist_affine power2_eq_square field_simps)
next
  case (Suc k)
  let ?m = "1 / 2 * (t1 + t2)"
  have n: "n < 6" "5 - n = k" using Suc.hyps by simp_all
  have k: "k = 6 - Suc n" using Suc.hyps by simp
  have m: "t1 \<le> ?m" "?m \<le> t2" using Suc.prems(1) by simp_all
  let ?l1 = "integrateEdge (affine3 a b) t1 (affine3 a b t1) ?m tol (Suc n) d0"
  have l1: "snd (last ?l1) = d0 + (?m - t1)\<^sup>2 * pnorm b / 2 ^ (7 - Suc n)"
    using Suc.hyps(1)[OF k m(1)] n(1) by simp
  have l2: "snd (last (integrateEdge (affine3 a b) ?m (affine3 a b ?m) t2 tol (Suc n) (snd (last ?l1)))) =
      snd (last ?l1) + (t2 - ?m)\<^sup>2 * pnorm b / 2 ^ (7 - Suc n)"
    using Suc.hyps(1)[OF k m(2)] n(1) by simp
  have rec: "integrateEdge (affine3 a b) t1 (affine3 a b t1) t2 tol n d0 =
      ?l1 @ integrateEdge (affine3 a b) ?m (affine3 a b ?m) t2 tol (Suc n) (snd (last ?l1))"
  proof -
    have c: "\<not> ((5 < n \<and> X < tol) \<or> 20 < n)" for X using n(1) by simp
    show ?thesis by (rule trans[OF integrateEdge.simps]) (simp only: Let_def c if_False)
  qed
  have "7 - n = Suc (7 - Suc n)" using n(1) by simp
  then have p: "(2::real) ^ (7 - n) = 2 * 2 ^ (7 - Suc n)" by (simp only: power_Suc)
  show ?case
    unfolding rec last_append using integrateEdge_not_Nil l1 l2 p
    by (simp add: power2_eq_square field_simps)
qed

text \<open>C30. TMRCurve::integrate does not return the arc length.  On a straight segment
  traversed at constant speed |b| from t1 to t2, for any positive tolerance the error
  estimate of integrateEdge is zero, every branch stops at depth six, and the
  returned length is (t2 - t1)^2 |b| / 128, while the segment is (t2 - t1) |b|
  long: each chord is multiplied by the width of its parameter interval.\<close>

theorem curve_integrate_line:
  assumes "0 < tol" and "t1 \<le> t2"
  shows "fst (curve_integrate (affine3 a b) t1 t2 tol) = (t2 - t1)\<^sup>2 * pnorm b / 128 \<and>
    pointDist (affine3 a b t2) (affine3 a b t1) = (t2 - t1) * pnorm b"
proof -
  have "fst (curve_integrate (affine3 a b) t1 t2 tol) = snd (last (integrateEdge (affine3 a b) t1 (affine3 a b t1) t2 tol 0 0))"
    using integrateEdge_not_Nil by (simp add: curve_integrate_def Let_def)
  also have "\<dots> = (t2 - t1)\<^sup>2 * pnorm b / 128"
    using integrateEdge_line[OF assms, of 0 a b 0] by simp
  finally show ?thesis using assms(2) by (simp add: pointDist_affine)
qed

theorem curve_integrate_line_witness:
  "fst (curve_integrate (affine3 (0, 0, 0) (1, 0, 0)) 0 1 1) = 1 / 128 \<and>
   pointDist (affine3 (0, 0, 0) (1, 0, 0) 1) (affine3 (0, 0, 0) (1, 0, 0) 0) = 1"
  using curve_integrate_line[of 1 0 1 "(0, 0, 0)" "(1, 0, 0)"] by (simp add: pnorm_def pointDist_def)

end
