(* ===== verification/Spec2Isabelle.thy ===== *)
theory Spec2Isabelle
  imports Enrichment NodeDeriv KSConstraint Recon TriHash QuadTree Refine TriQueue Edges Geometry
begin

text \<open>
  Verification development of the TMR sources under \<open>src/\<close>: the reconstruction
  and error-estimation core of \<open>src/src/TMRGeometry.c\<close> (components C1 to C6 of the
  spec), the two-dimensional mesh generator \<open>src/src/TMRTriangularize.c\<close>, and the
  default curve and surface routines of the geometry classes
  (\<open>src/src/TMRGeometry.c\<close> lines 33--245 and \<open>src/unnamed/part_000\<close>, declared in
  \<open>src/unnamed/part_001\<close>, the header \<open>TMRGeometry.h\<close>).

  \<^bold>\<open>How the parts interact.\<close>  The refined-field builder (C5) walks the elements of a
  forest; for each element it evaluates the enrichment basis (C1), takes the nodal
  derivatives that the projector (C3) assembled with the Jacobian kernel (C2) into a
  distributed vector, and solves the least-squares patch reconstruction (C4); the KS
  stress constraint (C6) samples the reconstructed strain at Gauss points.  The mesh
  generator keeps its triangles in a list indexed by a hash table of directed edges,
  finds points with a quadtree, queues triangles for the frontal method, looks up
  boundary edges in a sorted edge array, and finally collapses degenerate edges and
  renumbers the points.

  \<^bold>\<open>Theories and the code they model.\<close>
  \<^item> \<open>Prelude\<close>: the model's types (\<open>u32 = 32 word\<close>, \<open>pt2\<close>, \<open>pt3\<close>), the
    option-monad fold \<open>foldM\<close> used for every loop that may read undefined memory,
    and the shared lemmas on sums, strided arrays and folds.
  \<^item> \<open>Enrichment\<close> (C1, \<open>TMRGeometry.c\<close> 744--1128): \<open>getNum2dEnrich\<close>,
    \<open>getNum3dEnrich\<close> and every overload of \<open>evalEnrichmentFuncs2D\<close>,
    \<open>eval2ndEnrichmentFuncs3D\<close>, \<open>eval3rdEnrichmentFuncs3D\<close>, entry by entry.
  \<^item> \<open>NodeDeriv\<close> (C2 and C3, 667--739 and 1460--1810): \<open>computeJacobianTrans2D/3D\<close>,
    \<open>computeLocalWeights\<close> and \<open>computeNodeDeriv2D/3D\<close> as folds over the elements;
    the TACS vector \<open>TACSBVec\<close> and \<open>FElibrary::jacobian3d\<close> are modelled from the spec
    on one global address space.
  \<^item> \<open>Recon\<close> (C4, 1141--1455): \<open>computeElemRecon2D/3D\<close>, the column-major
    least-squares system and the copy of the solution; LAPACK \<open>dgelss\<close> is a
    parameter.
  \<^item> \<open>Refine\<close> (C5, 1815--2203 and 2440--2773): \<open>addRefinedSolution2D/3D\<close> and both
    \<open>TMR_ComputeReconSolution\<close> drivers over the record \<open>refine_mesh\<close>.
  \<^item> \<open>KSConstraint\<close> (C6c, 3537--3820 and 4221--4412): the constructor,
    \<open>evalConstraint\<close>, \<open>evalStrain\<close>, \<open>addStrainDeriv\<close> and the weights of
    \<open>evalConDeriv\<close>, with the state of \<open>TMRStressConstraint\<close> as a record.
  \<^item> \<open>TriHash\<close> (\<open>TMRTriangularize.c\<close> 926--1242): the triangle list and the edge
    hash table (\<open>addTriangle\<close>, \<open>deleteTriangle\<close>, \<open>completeMe\<close>, the rehash,
    \<open>deleteTrianglesFromList\<close>) with the reachability relation \<open>mesh_reach\<close>.
  \<^item> \<open>QuadTree\<close> (152--430): \<open>TMRQuadNode\<close>, with \<open>addNode\<close> as a
    \<open>partial_function (option)\<close> because a split re-adds points.
  \<^item> \<open>TriQueue\<close> (52--145): the queue of triangles on an explicit store of nodes,
    with the reachability relation \<open>tq_reach\<close>.
  \<^item> \<open>Edges\<close> (22--46, 695--805, 1244--1278): the Morton comparator
    \<open>compare_edges\<close> on 32-bit words, \<open>setUpPSLGEdges\<close>, \<open>edgeInPSLG\<close>, and
    \<open>removeDegenerateEdges\<close> composed with the operations of \<open>TriHash\<close>; the C
    library's \<open>qsort\<close> and \<open>bsearch\<close> are modelled from their contracts.
  \<^item> \<open>Geometry\<close> (\<open>TMRGeometry.c\<close> 33--245, \<open>part_000\<close> 116--177): the default
    \<open>TMRCurve::invEvalPoint\<close>, the finite-difference \<open>evalDeriv\<close> of curves and
    surfaces, and the adaptive integration \<open>integrateEdge\<close> /
    \<open>TMRCurve::integrate\<close>; the virtual \<open>evalPoint\<close> and \<open>getRange\<close> are parameters.

  State is passed explicitly: a class or a group of globals is a record that each
  operation returns updated; C out-arrays are the lists the routine writes.  Every
  read of memory that was never written, every write past an allocation and every
  dereference of a freed or null node is \<open>None\<close> (or \<open>Undefined\<close> for an output
  argument of \<open>Geometry\<close>), never a chosen value.

  \<^bold>\<open>What the lemmas show.\<close>  For each component the theory proves its functional
  contract on every branch: exactness of the derivative overloads and of the nodal
  projection on affine fields, reproduction of the prescribed derivatives by the
  reconstruction, the limit, bounds and derivative of the KS aggregate and the
  adjoint identity of \<open>addStrainDeriv\<close>; refinement of the edge hash and of the
  queue into finite maps and lists, with invariants of every reachable state by
  rule induction; correctness of the quadtree search and deletion; equivalence of
  the XOR comparator with the Morton key, correctness of the binary search on the
  sorted edge array and of the renumbering loop; exactness of the finite
  differences.  They also pin down where the code departs from its contract: the
  quadtree loses the point that triggers a split, the 3D refined builder overflows
  \<open>uref\<close>, \<open>deleteNext\<close> leaves \<open>end\<close> dangling, \<open>compare_degen_edges\<close> sorts by
  the second entry so a degenerate edge survives, and \<open>integrate\<close> returns
  (t2 - t1)^2 |b| / 128 on a straight segment instead of its length.

  \<^bold>\<open>Bounds and fuel.\<close>  Loops that may fail are folds in the option monad over
  the index lists the code iterates, so they always return.  The quadtree insertion
  is a partial function; the theorem on it proves that it returns exactly when the
  target leaf has room or may still be split (\<open>MAX_DEPTH\<close> below 31, the range in
  which \<open>1 << MAX_DEPTH\<close> is defined before C++14).  The walk along the queue,
  \<open>tq_nodes\<close>, takes the queue size as fuel, which is enough because a well-formed
  queue holds exactly \<open>size\<close> nodes.  \<open>integrateEdge\<close> terminates by the measure
  21 - ncalls (the code stops at depth 21), the Morton key and the bisection by the
  sum of the coordinates and by the width of the interval.  The comparator theorems
  assume node numbers below 2^31, where the \<open>uint32_t\<close> difference read as an
  \<open>int\<close> has the right sign; the mesh generator's numbers are far below that.

  \<^bold>\<open>Not modelled.\<close>
  \<^item> \<open>TMR_ComputeInterpSolution\<close> (\<open>TMRGeometry.c\<close> 2205--2439): it inserts values
    for dependent nodes with \<open>TACS_INSERT_NONZERO_VALUES\<close>, whose semantics the spec
    leaves open.
  \<^item> The error estimators \<open>TMR_StrainEnergyErrorEst\<close> and \<open>TMR_AdjointErrorEst\<close> (C6a,
    C6b) and \<open>TMR_PrintErrorBins\<close>: their work is done by element callbacks of TACS
    (\<open>computeEnergies\<close>, \<open>addLocalizedError\<close>) and MPI reductions, and the bins are
    printed output.
  \<^item> The least-squares sensitivity chain of \<open>evalConDeriv\<close> (LAPACK \<open>getrf/getri\<close>,
    BLAS \<open>gemm\<close>) and \<open>writeReconToTec\<close> (file output).
  \<^item> The curvature constraint \<open>TMRCurvatureConstraint\<close> (C6d), a second least-squares
    fit with its reverse-mode chain over the octree forest.
  \<^item> \<open>TMR_CreateTACSMg\<close>, the vertex classes and \<open>TMRCurveFromSurfaceProjection\<close>:
    object construction and calls into the geometry engine; the constructors,
    reference counting and \<open>writeToVTK\<close> routines only manage memory or write files.
  \<^item> The frontal and Bowyer-Watson parts of the mesh generator (\<open>digCavity\<close>,
    \<open>findEnclosing\<close>, \<open>frontal\<close>, \<open>addPointToMesh\<close>, \<open>initialize\<close>) with their
    floating-point predicates, and \<open>getMesh\<close>/\<open>writeToVTK\<close>.
  \<^item> \<open>src/unnamed/part_002\<close> (\<open>TMR_TACSTopoCreator\<close>): construction of TACS
    objects, filters and MPI variable maps.  \<open>src/src/TMROctree.h\<close> and
    \<open>src/unnamed/part_001\<close> contain declarations only.
\<close>

end
